theory Spec2Isabelle
  imports Main "HOL-Library.AList"
begin

section \<open>SpyNet: sessions, endpoint registry and connection hub\<close>

text \<open>
  The development embeds the core of the mock server: \<^verbatim>\<open>EndpointRegistry.ts\<close>,
  \<^verbatim>\<open>SessionManager.ts\<close>, \<^verbatim>\<open>WebSocketHub.ts\<close> and the request handlers of
  \<^verbatim>\<open>server.ts\<close>.

  Conventions of the embedding.
  \<^item> A JavaScript \<^verbatim>\<open>Map\<close> keeps its entries in insertion order, \<^verbatim>\<open>set\<close> on a key
    that is present overwrites the value in place, \<^verbatim>\<open>set\<close> on a new key appends, and
    \<^verbatim>\<open>delete\<close> removes the entry. That is an association list with
    \<open>AList.update\<close>, \<open>AList.delete\<close> and \<open>map_of\<close>.
  \<^item> Objects held in a map are mutated through references in the source
    (\<^verbatim>\<open>config.callCount++\<close>, \<^verbatim>\<open>session.lastActivityAt = ...\<close>); each object is owned by
    exactly one map entry, so the mutation is an update of that entry.
  \<^item> Values of TypeScript type \<^verbatim>\<open>any\<close> (bodies, params, data) are never inspected by
    the core; they are a type parameter \<open>'a\<close>.
  \<^item> \<^verbatim>\<open>number\<close> fields holding counts are \<open>nat\<close>, time stamps (milliseconds) and
    status codes are \<open>int\<close>.
  \<^item> Every read of the clock (\<^verbatim>\<open>Date.now()\<close>, \<^verbatim>\<open>new Date()\<close>) is an argument of the
    function that reads it.
  \<^item> A string is the list of the bytes of its UTF-8 encoding: an ASCII character is one
    byte below 128, every other character is a sequence of bytes from 128 on.
  \<^item> A web socket is an opaque handle; \<^verbatim>\<open>close()\<close> and \<^verbatim>\<open>send(s)\<close> on it are
    returned as lists of effects.
\<close>

subsection \<open>JavaScript maps and strings\<close>

type_synonym ('k, 'v) jsmap = "('k \<times> 'v) list"

abbreviation Map_get :: "('k, 'v) jsmap \<Rightarrow> 'k \<Rightarrow> 'v option" where
  "Map_get m k \<equiv> map_of m k"

abbreviation Map_set :: "'k \<Rightarrow> 'v \<Rightarrow> ('k, 'v) jsmap \<Rightarrow> ('k, 'v) jsmap" where
  "Map_set k v m \<equiv> AList.update k v m"

abbreviation Map_delete :: "'k \<Rightarrow> ('k, 'v) jsmap \<Rightarrow> ('k, 'v) jsmap" where
  "Map_delete k m \<equiv> AList.delete k m"

definition Map_has :: "('k, 'v) jsmap \<Rightarrow> 'k \<Rightarrow> bool" where
  "Map_has m k = (map_of m k \<noteq> None)"

text \<open>
  \<^verbatim>\<open>String.prototype.toUpperCase\<close> is the library's. On a string of ASCII characters it moves
  the letters \<open>a\<close> to \<open>z\<close> (codes 97 to 122) down by 32 and keeps every other character.
  On a string with a character outside ASCII it follows the Unicode table, where a
  character may become another one or several (the German sharp s becomes \<^verbatim>\<open>SS\<close>);
  that table is not part of the program, so what the function returns on such a string
  is the parameter
  \<open>uc\<close> of every function that upper-cases.
\<close>

definition is_ascii :: "char \<Rightarrow> bool" where
  "is_ascii c = ((of_char c :: nat) < 128)"

definition upper_char :: "char \<Rightarrow> char" where
  "upper_char c =
     (let n = (of_char c :: nat) in if 97 \<le> n \<and> n \<le> 122 then char_of (n - 32) else c)"

definition toUpperCase :: "(string \<Rightarrow> string) \<Rightarrow> string \<Rightarrow> string" where
  "toUpperCase uc s = (if list_all is_ascii s then map upper_char s else uc s)"

subsection \<open>types.ts\<close>

record 'a response_config =
  status :: int
  headers :: "(string \<times> string) list option"
  body :: "'a option"

record 'a endpoint_config =
  method_name :: string
  path :: string
  responses :: "'a response_config list"
  callCount :: nat

text \<open>The fields of a request record carry the prefix \<open>req_\<close> where the name is already a
  field of an endpoint or response configuration; the field \<^verbatim>\<open>method\<close> of an endpoint
  configuration is \<open>method_name\<close>.\<close>

record request_record =
  req_method :: string
  req_path :: string
  req_status :: int
  timestamp :: int
  configured :: bool
  responseTime :: int

type_synonym websocket = nat

record 'a session =
  id_session :: string
  createdAt :: int
  lastActivityAt :: int
  endpoints :: "(string, 'a endpoint_config) jsmap"
  websocket :: "websocket option"
  requestHistory :: "request_record list"

subsection \<open>EndpointRegistry.ts\<close>

type_synonym 'a registry = "(string, 'a endpoint_config) jsmap"

definition makeKey :: "(string \<Rightarrow> string) \<Rightarrow> string \<Rightarrow> string \<Rightarrow> string" where
  "makeKey uc m p = toUpperCase uc m @ '':'' @ p"

definition configure ::
  "(string \<Rightarrow> string) \<Rightarrow> 'a endpoint_config \<Rightarrow> 'a registry \<Rightarrow> 'a registry" where
  "configure uc config reg =
     (let key = makeKey uc (method_name config) (path config)
      in Map_set key (config\<lparr>callCount := 0\<rparr>) reg)"

definition get ::
  "(string \<Rightarrow> string) \<Rightarrow> string \<Rightarrow> string \<Rightarrow> 'a registry \<Rightarrow> 'a endpoint_config option" where
  "get uc m p reg = (let key = makeKey uc m p in Map_get reg key)"

text \<open>\<^verbatim>\<open>getNextResponse\<close> returns the response (\<open>None\<close> for \<^verbatim>\<open>null\<close>) and the registry
  after the call.\<close>

definition getNextResponse ::
  "(string \<Rightarrow> string) \<Rightarrow> string \<Rightarrow> string \<Rightarrow> 'a registry
     \<Rightarrow> 'a response_config option \<times> 'a registry" where
  "getNextResponse uc m p reg =
     (case get uc m p reg of
        None \<Rightarrow> (None, reg)
      | Some config \<Rightarrow>
          if length (responses config) = 0 then (None, reg)
          else
            let index = min (callCount config) (length (responses config) - 1);
                response = responses config ! index
            in (Some response,
                Map_set (makeKey uc m p) (config\<lparr>callCount := callCount config + 1\<rparr>) reg))"

definition list :: "'a registry \<Rightarrow> 'a endpoint_config list" where
  "list reg = map snd reg"

definition clear ::
  "(string \<Rightarrow> string) \<Rightarrow> string \<Rightarrow> string \<Rightarrow> 'a registry \<Rightarrow> bool \<times> 'a registry" where
  "clear uc m p reg = (let key = makeKey uc m p in (Map_has reg key, Map_delete key reg))"

definition clearAll :: "'a registry \<Rightarrow> 'a registry" where
  "clearAll reg = []"

text \<open>\<open>nextResponses uc j m p reg\<close> makes \<open>j\<close> calls of \<^verbatim>\<open>getNextResponse\<close> in a row for the
  same method and path and collects what they return.\<close>

fun nextResponses ::
  "(string \<Rightarrow> string) \<Rightarrow> nat \<Rightarrow> string \<Rightarrow> string \<Rightarrow> 'a registry
     \<Rightarrow> 'a response_config option list \<times> 'a registry" where
  "nextResponses uc 0 m p reg = ([], reg)"
| "nextResponses uc (Suc j) m p reg =
     (let (r, reg') = getNextResponse uc m p reg;
          (rs, reg'') = nextResponses uc j m p reg'
      in (r # rs, reg''))"

subsection \<open>SessionManager.ts\<close>

record session_manager_config =
  ttl :: int

text \<open>The interval timer that calls \<^verbatim>\<open>cleanupExpired\<close> every minute is outside the state:
  the sweep is a function of the store and of the clock reading.\<close>

record 'a session_manager =
  sessions :: "(string, 'a session) jsmap"
  config :: session_manager_config

text \<open>\<open>t_created\<close> and \<open>t_activity\<close> are the two \<^verbatim>\<open>new Date()\<close> readings of the creating
  branch.\<close>

definition getOrCreate ::
  "int \<Rightarrow> int \<Rightarrow> string \<Rightarrow> 'a session_manager \<Rightarrow> 'a session \<times> 'a session_manager" where
  "getOrCreate t_created t_activity sessionId mgr =
     (case Map_get (sessions mgr) sessionId of
        Some session \<Rightarrow> (session, mgr)
      | None \<Rightarrow>
          let session = \<lparr>id_session = sessionId, createdAt = t_created,
                         lastActivityAt = t_activity, endpoints = [], websocket = None,
                         requestHistory = []\<rparr>
          in (session, mgr\<lparr>sessions := Map_set sessionId session (sessions mgr)\<rparr>))"

definition updateActivity :: "int \<Rightarrow> string \<Rightarrow> 'a session_manager \<Rightarrow> 'a session_manager" where
  "updateActivity t sessionId mgr =
     (case Map_get (sessions mgr) sessionId of
        None \<Rightarrow> mgr
      | Some session \<Rightarrow>
          mgr\<lparr>sessions := Map_set sessionId (session\<lparr>lastActivityAt := t\<rparr>) (sessions mgr)\<rparr>)"

text \<open>\<^verbatim>\<open>deleteSession\<close> returns the boolean, the store after the call and the sockets on
  which \<^verbatim>\<open>close()\<close> was called.\<close>

definition deleteSession ::
  "string \<Rightarrow> 'a session_manager \<Rightarrow> bool \<times> 'a session_manager \<times> websocket list" where
  "deleteSession sessionId mgr =
     (case Map_get (sessions mgr) sessionId of
        None \<Rightarrow> (False, mgr, [])
      | Some session \<Rightarrow>
          let closed = (case websocket session of None \<Rightarrow> [] | Some ws \<Rightarrow> [ws])
          in (True, mgr\<lparr>sessions := Map_delete sessionId (sessions mgr)\<rparr>, closed))"

text \<open>The first loop of \<^verbatim>\<open>cleanupExpired\<close> collects the expired ids in map order, the
  second one deletes each of them.\<close>

definition expired :: "int \<Rightarrow> 'a session_manager \<Rightarrow> string list" where
  "expired now mgr =
     map fst (filter (\<lambda>(sid, session). now - lastActivityAt session > ttl (config mgr))
        (sessions mgr))"

fun deleteEach ::
  "string list \<Rightarrow> 'a session_manager \<Rightarrow> 'a session_manager \<times> websocket list" where
  "deleteEach [] mgr = (mgr, [])"
| "deleteEach (sid # ids) mgr =
     (let (deleted, mgr', closed) = deleteSession sid mgr;
          (mgr'', closed') = deleteEach ids mgr'
      in (mgr'', closed @ closed'))"

definition cleanupExpired ::
  "int \<Rightarrow> 'a session_manager \<Rightarrow> 'a session_manager \<times> websocket list" where
  "cleanupExpired now mgr = deleteEach (expired now mgr) mgr"

subsection \<open>WebSocketHub.ts\<close>

type_synonym hub = "(string, websocket) jsmap"

text \<open>The object literals \<^verbatim>\<open>{type: 'action', action, params}\<close> and
  \<^verbatim>\<open>{type: 'data', data}\<close>; an omitted \<^verbatim>\<open>params\<close> is \<open>None\<close>.\<close>

datatype 'a ws_message = ActionMessage string "'a option" | DataMessage 'a

definition register :: "string \<Rightarrow> websocket \<Rightarrow> hub \<Rightarrow> hub" where
  "register sessionId ws connections = Map_set sessionId ws connections"

definition unregister :: "string \<Rightarrow> hub \<Rightarrow> hub" where
  "unregister sessionId connections = Map_delete sessionId connections"

definition hub_get :: "hub \<Rightarrow> string \<Rightarrow> websocket option" where
  "hub_get connections sessionId = Map_get connections sessionId"

definition isConnected :: "hub \<Rightarrow> string \<Rightarrow> bool" where
  "isConnected connections sessionId = Map_has connections sessionId"

text \<open>\<^verbatim>\<open>JSON.stringify\<close> is the library's: it is the parameter \<open>stringify\<close>. The result is
  the boolean and the list of writes \<^verbatim>\<open>ws.send(s)\<close>, each with the socket written to. The
  connection map is not modified.\<close>

definition sendAction ::
  "('a ws_message \<Rightarrow> 'w) \<Rightarrow> string \<Rightarrow> string \<Rightarrow> 'a option \<Rightarrow> hub \<Rightarrow> bool \<times> (websocket \<times> 'w) list"
  where
  "sendAction stringify sessionId action params connections =
     (case Map_get connections sessionId of
        None \<Rightarrow> (False, [])
      | Some ws \<Rightarrow>
          let message = ActionMessage action params
          in (True, [(ws, stringify message)]))"

definition sendData ::
  "('a ws_message \<Rightarrow> 'w) \<Rightarrow> string \<Rightarrow> 'a \<Rightarrow> hub \<Rightarrow> bool \<times> (websocket \<times> 'w) list" where
  "sendData stringify sessionId data connections =
     (case Map_get connections sessionId of
        None \<Rightarrow> (False, [])
      | Some ws \<Rightarrow>
          let message = DataMessage data
          in (True, [(ws, stringify message)]))"

text \<open>A sequence of registrations and removals, applied to the empty hub of the
  constructor.\<close>

datatype hub_op = Register string websocket | Unregister string

fun hub_step :: "hub \<Rightarrow> hub_op \<Rightarrow> hub" where
  "hub_step connections (Register sessionId ws) = register sessionId ws connections"
| "hub_step connections (Unregister sessionId) = unregister sessionId connections"

definition hub_run :: "hub_op list \<Rightarrow> hub" where
  "hub_run ops = foldl hub_step [] ops"

subsection \<open>server.ts: the data plane and the configuration route\<close>

text \<open>The clock readings of one run of a handler, one field for each place that reads the
  clock.\<close>

record clock_reads =
  t_start :: int
  t_created :: int
  t_activity :: int
  t_update :: int
  t_end :: int
  t_stamp :: int

datatype 'a payload = NotConfigured string string | Body "'a option"

record 'a reply =
  code :: int
  reply_headers :: "(string \<times> string) list"
  payload :: "'a payload"

text \<open>A handler holds the session object that \<^verbatim>\<open>getOrCreate\<close> returned and mutates it
  through that reference. \<open>current\<close> reads the object as it is in the store now,
  \<open>store\<close> writes the mutated object back to its entry.\<close>

definition current :: "string \<Rightarrow> 'a session \<Rightarrow> 'a session_manager \<Rightarrow> 'a session" where
  "current sessionId session mgr =
     (case Map_get (sessions mgr) sessionId of None \<Rightarrow> session | Some s \<Rightarrow> s)"

definition store :: "string \<Rightarrow> 'a session \<Rightarrow> 'a session_manager \<Rightarrow> 'a session_manager" where
  "store sessionId session mgr = mgr\<lparr>sessions := Map_set sessionId session (sessions mgr)\<rparr>"

text \<open>\<^verbatim>\<open>xs.slice(-n)\<close>: the last \<open>n\<close> elements, all of them when there are fewer.\<close>

definition slice_last :: "nat \<Rightarrow> 'b list \<Rightarrow> 'b list" where
  "slice_last n xs = drop (length xs - n) xs"

definition dataPlane ::
  "(string \<Rightarrow> string) \<Rightarrow> clock_reads \<Rightarrow> string \<Rightarrow> string \<Rightarrow> string \<Rightarrow> 'a session_manager
     \<Rightarrow> 'a reply \<times> 'a session_manager" where
  "dataPlane uc clk sessionId m p mgr0 =
     (let startTime = t_start clk;
          (session0, mgr1) = getOrCreate (t_created clk) (t_activity clk) sessionId mgr0;
          mgr2 = updateActivity (t_update clk) sessionId mgr1;
          session = current sessionId session0 mgr2;
          key = toUpperCase uc m @ '':'' @ p;
          config = Map_get (endpoints session) key;
          responseTime = t_end clk - startTime
      in
        if config = None \<or> length (responses (the config)) = 0 then
          let session' = session\<lparr>requestHistory := requestHistory session @
                [\<lparr>req_method = m, req_path = p, req_status = 404, timestamp = t_stamp clk,
                  configured = False, responseTime = responseTime\<rparr>]\<rparr>
          in (\<lparr>code = 404, reply_headers = [], payload = NotConfigured m p\<rparr>,
              store sessionId session' mgr2)
        else
          let cfg = the config;
              index = min (callCount cfg) (length (responses cfg) - 1);
              response = responses cfg ! index;
              cfg' = cfg\<lparr>callCount := callCount cfg + 1\<rparr>;
              session1 = session\<lparr>endpoints := Map_set key cfg' (endpoints session)\<rparr>;
              session2 = session1\<lparr>requestHistory := requestHistory session1 @
                [\<lparr>req_method = m, req_path = p, req_status = status response,
                  timestamp = t_stamp clk, configured = True, responseTime = responseTime\<rparr>]\<rparr>;
              session3 =
                (if length (requestHistory session2) > 1000
                 then session2\<lparr>requestHistory := slice_last 1000 (requestHistory session2)\<rparr>
                 else session2)
          in (\<lparr>code = status response,
               reply_headers = (case headers response of None \<Rightarrow> [] | Some hs \<Rightarrow> hs),
               payload = Body (body response)\<rparr>,
              store sessionId session3 mgr2))"

text \<open>\<^verbatim>\<open>POST /_mock/sessions/:sessionId/endpoints\<close>: the status code of the reply and the
  store after the request.\<close>

definition postEndpoints ::
  "(string \<Rightarrow> string) \<Rightarrow> clock_reads \<Rightarrow> string \<Rightarrow> string \<Rightarrow> string \<Rightarrow> 'a response_config list
     \<Rightarrow> 'a session_manager \<Rightarrow> int \<times> 'a session_manager" where
  "postEndpoints uc clk sessionId m p rs mgr0 =
     (let (session0, mgr1) = getOrCreate (t_created clk) (t_activity clk) sessionId mgr0;
          mgr2 = updateActivity (t_update clk) sessionId mgr1;
          session = current sessionId session0 mgr2;
          key = toUpperCase uc m @ '':'' @ p;
          session' = session\<lparr>endpoints :=
             Map_set key \<lparr>method_name = m, path = p, responses = rs, callCount = 0\<rparr>
               (endpoints session)\<rparr>
      in (201, store sessionId session' mgr2))"

subsection \<open>Notions of the specification\<close>

text \<open>Two ASCII methods are equal up to case when they have the same length and, position
  by position, the characters are the same or are the lower-case and the upper-case form
  of one letter of the alphabet.\<close>

definition lower_letters :: string where
  "lower_letters = ''abcdefghijklmnopqrstuvwxyz''"

definition upper_letters :: string where
  "upper_letters = ''ABCDEFGHIJKLMNOPQRSTUVWXYZ''"

definition same_letter :: "char \<Rightarrow> char \<Rightarrow> bool" where
  "same_letter a b =
     (a = b \<or> (a, b) \<in> set (zip lower_letters upper_letters)
            \<or> (b, a) \<in> set (zip lower_letters upper_letters))"

definition equal_up_to_case :: "string \<Rightarrow> string \<Rightarrow> bool" where
  "equal_up_to_case s t = list_all2 same_letter s t"

text \<open>The constructor of the session manager, and \<open>n\<close> data-plane requests in a row for the
  same session, method and path.\<close>

definition newSessionManager :: "session_manager_config \<Rightarrow> 'a session_manager" where
  "newSessionManager cfg = \<lparr>sessions = [], config = cfg\<rparr>"

definition dataPlaneTimes ::
  "(string \<Rightarrow> string) \<Rightarrow> nat \<Rightarrow> clock_reads \<Rightarrow> string \<Rightarrow> string \<Rightarrow> string \<Rightarrow> 'a session_manager
     \<Rightarrow> 'a session_manager" where
  "dataPlaneTimes uc n clk sessionId m p mgr =
     ((\<lambda>mgr'. snd (dataPlane uc clk sessionId m p mgr')) ^^ n) mgr"

text \<open>The operations on the store that delete nothing, and a sequence of them.\<close>

datatype 'a store_op =
    GetOrCreate int int string
  | UpdateActivity int string
  | DataPlane clock_reads string string string
  | PostEndpoints clock_reads string string string "'a response_config list"

fun store_step ::
  "(string \<Rightarrow> string) \<Rightarrow> 'a session_manager \<Rightarrow> 'a store_op \<Rightarrow> 'a session_manager" where
  "store_step uc mgr (GetOrCreate t_c t_a sessionId) = snd (getOrCreate t_c t_a sessionId mgr)"
| "store_step uc mgr (UpdateActivity t sessionId) = updateActivity t sessionId mgr"
| "store_step uc mgr (DataPlane clk sessionId m p) = snd (dataPlane uc clk sessionId m p mgr)"
| "store_step uc mgr (PostEndpoints clk sessionId m p rs) =
     snd (postEndpoints uc clk sessionId m p rs mgr)"

definition store_run ::
  "(string \<Rightarrow> string) \<Rightarrow> 'a session_manager \<Rightarrow> 'a store_op list \<Rightarrow> 'a session_manager" where
  "store_run uc mgr ops = foldl (store_step uc) mgr ops"

text \<open>In the closed examples below every method is an ASCII string, so the table of the
  library is not consulted; \<open>no_table\<close> stands in its place.\<close>

definition no_table :: "string \<Rightarrow> string" where
  "no_table s = s"

section \<open>Properties\<close>

subsection \<open>Endpoint registry\<close>

lemma get_after_set: "get uc m p (Map_set (makeKey uc m p) v reg) = Some v"
  by (simp add: get_def update_conv')

lemma getNextResponse_step:
  assumes "get uc m p reg = Some cfg" "responses cfg \<noteq> []"
  shows "getNextResponse uc m p reg =
     (Some (responses cfg ! min (callCount cfg) (length (responses cfg) - 1)),
      Map_set (makeKey uc m p) (cfg\<lparr>callCount := callCount cfg + 1\<rparr>) reg)"
  using assms by (simp add: getNextResponse_def Let_def)

lemma nextResponses_nth:
  assumes "get uc m p reg = Some cfg" "responses cfg \<noteq> []"
  shows "fst (nextResponses uc j m p reg) =
     map (\<lambda>i. Some (responses cfg ! min (callCount cfg + i) (length (responses cfg) - 1))) [0..<j]"
  using assms
proof (induction j arbitrary: reg cfg)
  case 0
  then show ?case by simp
next
  case (Suc j)
  let ?cfg' = "cfg\<lparr>callCount := callCount cfg + 1\<rparr>"
  let ?reg' = "Map_set (makeKey uc m p) ?cfg' reg"
  have step: "getNextResponse uc m p reg =
     (Some (responses cfg ! min (callCount cfg) (length (responses cfg) - 1)), ?reg')"
    using Suc.prems by (rule getNextResponse_step)
  have g: "get uc m p ?reg' = Some ?cfg'" by (rule get_after_set)
  have r: "responses ?cfg' \<noteq> []" using Suc.prems by simp
  have ih: "fst (nextResponses uc j m p ?reg') =
     map (\<lambda>i. Some (responses cfg ! min (callCount cfg + 1 + i) (length (responses cfg) - 1))) [0..<j]"
    using Suc.IH[OF g r] by simp
  have "[0..<Suc j] = 0 # map Suc [0..<j]"
    by (simp add: upt_conv_Cons map_Suc_upt del: upt_Suc)
  then show ?case
    using step ih by (simp add: split_beta o_def del: upt_Suc)
qed

lemma clamp_list:
  assumes "rs \<noteq> []"
  shows "map (\<lambda>i. rs ! min i (length rs - 1)) [0..<length rs + k] = rs @ replicate k (last rs)"
proof (rule nth_equalityI)
  show "length (map (\<lambda>i. rs ! min i (length rs - 1)) [0..<length rs + k]) = length (rs @ replicate k (last rs))"
    by simp
next
  fix i assume "i < length (map (\<lambda>i. rs ! min i (length rs - 1)) [0..<length rs + k])"
  then have i: "i < length rs + k" by simp
  show "map (\<lambda>i. rs ! min i (length rs - 1)) [0..<length rs + k] ! i = (rs @ replicate k (last rs)) ! i"
  proof (cases "i < length rs")
    case True
    then have "min i (length rs - 1) = i" by simp
    then show ?thesis using i True by (simp add: nth_append)
  next
    case False
    then have "min i (length rs - 1) = length rs - 1" by simp
    then show ?thesis using i False assms by (simp add: nth_append last_conv_nth)
  qed
qed



lemma upper_char_code:
  "(of_char (upper_char c) :: nat) =
     (if 97 \<le> (of_char c :: nat) \<and> (of_char c :: nat) \<le> 122 then of_char c - 32 else of_char c)"
  by (auto simp: upper_char_def Let_def)

lemma char_eq_nat: "(a = b) = ((of_char a :: nat) = of_char b)"
  by simp

lemma case_pairs_codes:
  "zip lower_letters upper_letters = map (\<lambda>n. (char_of n, char_of (n - 32))) [97..<123]"
  by code_simp

lemma case_pairs_set:
  "set (zip lower_letters upper_letters) =
     (\<lambda>n::nat. (char_of n, char_of (n - 32))) ` {97..<123}"
  by (simp only: case_pairs_codes set_map set_upt)

lemma in_case_pairs:
  "((a, b) \<in> set (zip lower_letters upper_letters)) =
     (97 \<le> (of_char a :: nat) \<and> (of_char a :: nat) \<le> 122 \<and> (of_char b :: nat) + 32 = of_char a)"
proof
  assume "(a, b) \<in> set (zip lower_letters upper_letters)"
  then obtain n :: nat where n: "97 \<le> n" "n < 123" "a = char_of n" "b = char_of (n - 32)"
    unfolding case_pairs_set by auto
  have "(of_char a :: nat) = n" using n by simp
  moreover have "(of_char b :: nat) = n - 32" using n by simp
  ultimately show "97 \<le> (of_char a :: nat) \<and> (of_char a :: nat) \<le> 122
      \<and> (of_char b :: nat) + 32 = of_char a"
    using n(1,2) by simp
next
  assume h: "97 \<le> (of_char a :: nat) \<and> (of_char a :: nat) \<le> 122
      \<and> (of_char b :: nat) + 32 = of_char a"
  let ?n = "of_char a :: nat"
  have a: "a = char_of ?n" by simp
  have "(of_char b :: nat) = ?n - 32" using h by linarith
  then have b: "b = char_of (?n - 32)" by (metis char_of_char)
  have "97 \<le> ?n" and "?n < 123" using h by linarith+
  then have "?n \<in> {97..<123}" by (simp only: atLeastLessThan_iff simp_thms)
  then have "(char_of ?n, char_of (?n - 32)) \<in>
      (\<lambda>n::nat. (char_of n, char_of (n - 32))) ` {97..<123}"
    by (rule imageI)
  then show "(a, b) \<in> set (zip lower_letters upper_letters)"
    unfolding case_pairs_set using a b by (simp only:)
qed

lemma upper_code_eq_iff:
  fixes x y :: nat
  defines "u \<equiv> \<lambda>n::nat. if 97 \<le> n \<and> n \<le> 122 then n - 32 else n"
  shows "(u x = u y) =
     (x = y \<or> (97 \<le> x \<and> x \<le> 122 \<and> y + 32 = x) \<or> (97 \<le> y \<and> y \<le> 122 \<and> x + 32 = y))"
proof (cases "97 \<le> x \<and> x \<le> 122")
  case lx: True
  show ?thesis
  proof (cases "97 \<le> y \<and> y \<le> 122")
    case True
    with lx show ?thesis unfolding u_def by simp arith
  next
    case False
    with lx show ?thesis unfolding u_def by simp arith
  qed
next
  case nx: False
  show ?thesis
  proof (cases "97 \<le> y \<and> y \<le> 122")
    case True
    with nx show ?thesis unfolding u_def by simp arith
  next
    case False
    with nx show ?thesis unfolding u_def by auto
  qed
qed

lemma upper_char_eq_iff: "upper_char a = upper_char b \<longleftrightarrow> same_letter a b"
proof -
  have "(upper_char a = upper_char b) = ((of_char (upper_char a) :: nat) = of_char (upper_char b))"
    by (rule char_eq_nat)
  moreover have "(a = b) = ((of_char a :: nat) = of_char b)"
    by (rule char_eq_nat)
  ultimately show ?thesis
    unfolding same_letter_def in_case_pairs upper_char_code
    using upper_code_eq_iff[of "of_char a" "of_char b"] by (simp only:)
qed

lemma map_upper_char_eq_iff: "map upper_char s = map upper_char t \<longleftrightarrow> equal_up_to_case s t"
  unfolding equal_up_to_case_def
proof (induction s arbitrary: t)
  case Nil
  then show ?case by auto
next
  case (Cons a s)
  then show ?case by (cases t) (auto simp: upper_char_eq_iff)
qed

lemma toUpperCase_ascii: "list_all is_ascii s \<Longrightarrow> toUpperCase uc s = map upper_char s"
  by (simp add: toUpperCase_def)

lemma toUpperCase_eq_iff:
  "list_all is_ascii s \<Longrightarrow> list_all is_ascii t \<Longrightarrow>
   toUpperCase uc s = toUpperCase uc t \<longleftrightarrow> equal_up_to_case s t"
  by (simp only: toUpperCase_ascii map_upper_char_eq_iff)

lemma upper_char_colon: "upper_char c = CHR '':'' \<longleftrightarrow> c = CHR '':''"
  unfolding char_eq_nat[of "upper_char c"] char_eq_nat[of c]
  unfolding upper_char_code
  by auto

lemma colon_toUpperCase:
  "list_all is_ascii s \<Longrightarrow> CHR '':'' \<in> set (toUpperCase uc s) \<longleftrightarrow> CHR '':'' \<in> set s"
  unfolding toUpperCase_ascii set_map image_iff
  using upper_char_colon by metis

lemma first_separator:
  "x \<notin> set xs \<Longrightarrow> x \<notin> set ys \<Longrightarrow> (xs @ x # p = ys @ x # q) = (xs = ys \<and> p = q)"
proof (induction xs arbitrary: ys)
  case Nil
  then show ?case by (cases ys) auto
next
  case (Cons a xs)
  then show ?case by (cases ys) auto
qed

lemma makeKey_eq_iff:
  assumes "CHR '':'' \<notin> set (toUpperCase uc m1)" "CHR '':'' \<notin> set (toUpperCase uc m2)"
  shows "makeKey uc m1 p1 = makeKey uc m2 p2 \<longleftrightarrow> toUpperCase uc m1 = toUpperCase uc m2 \<and> p1 = p2"
  unfolding makeKey_def using first_separator[OF assms] by simp

lemma nextResponses_counter:
  assumes "get uc m p reg = Some cfg" "responses cfg \<noteq> []"
  shows "get uc m p (snd (nextResponses uc j m p reg)) = Some (cfg\<lparr>callCount := callCount cfg + j\<rparr>)"
  using assms
proof (induction j arbitrary: reg cfg)
  case 0
  then show ?case by simp
next
  case (Suc j)
  let ?cfg' = "cfg\<lparr>callCount := callCount cfg + 1\<rparr>"
  let ?reg' = "Map_set (makeKey uc m p) ?cfg' reg"
  have step: "getNextResponse uc m p reg =
     (Some (responses cfg ! min (callCount cfg) (length (responses cfg) - 1)), ?reg')"
    using Suc.prems by (rule getNextResponse_step)
  have g: "get uc m p ?reg' = Some ?cfg'" by (rule get_after_set)
  have r: "responses ?cfg' \<noteq> []" using Suc.prems by simp
  show ?case
    using step Suc.IH[OF g r] by (simp add: split_beta)
qed

text \<open>
  Claim C1. For a configured endpoint with \<open>n \<ge> 1\<close> responses and counter \<open>c\<close>, a call of
  \<^verbatim>\<open>getNextResponse\<close> returns the response at index \<open>min c (n - 1)\<close> and leaves the entry
  with counter \<open>c + 1\<close>; \<open>j\<close> calls in a row return the responses at the indices
  \<open>min (c + i) (n - 1)\<close> for \<open>i < j\<close> and leave the counter at \<open>c + j\<close>; and from
  counter zero, \<open>n + k\<close> calls return the \<open>n\<close> responses in order followed by \<open>k\<close> copies of
  the last one.
\<close>

theorem getNextResponse_sequence:
  assumes "get uc m p reg = Some cfg" and "responses cfg \<noteq> []"
  shows "getNextResponse uc m p reg =
           (Some (responses cfg ! min (callCount cfg) (length (responses cfg) - 1)),
            Map_set (makeKey uc m p) (cfg\<lparr>callCount := callCount cfg + 1\<rparr>) reg)
       \<and> get uc m p (snd (getNextResponse uc m p reg)) = Some (cfg\<lparr>callCount := callCount cfg + 1\<rparr>)
       \<and> fst (nextResponses uc j m p reg) =
           map (\<lambda>i. Some (responses cfg ! min (callCount cfg + i) (length (responses cfg) - 1)))
             [0..<j]
       \<and> get uc m p (snd (nextResponses uc j m p reg)) = Some (cfg\<lparr>callCount := callCount cfg + j\<rparr>)
       \<and> (callCount cfg = 0 \<longrightarrow>
            fst (nextResponses uc (length (responses cfg) + k) m p reg) =
              map Some (responses cfg @ replicate k (last (responses cfg))))"
proof -
  have step: "getNextResponse uc m p reg =
           (Some (responses cfg ! min (callCount cfg) (length (responses cfg) - 1)),
            Map_set (makeKey uc m p) (cfg\<lparr>callCount := callCount cfg + 1\<rparr>) reg)"
    using assms by (rule getNextResponse_step)
  have after: "get uc m p (snd (getNextResponse uc m p reg)) = Some (cfg\<lparr>callCount := callCount cfg + 1\<rparr>)"
    unfolding step by (simp add: get_after_set)
  have seq: "fst (nextResponses uc j m p reg) =
           map (\<lambda>i. Some (responses cfg ! min (callCount cfg + i) (length (responses cfg) - 1)))
             [0..<j]" for j
    using assms by (rule nextResponses_nth)
  have cnt: "get uc m p (snd (nextResponses uc j m p reg)) = Some (cfg\<lparr>callCount := callCount cfg + j\<rparr>)"
    using assms by (rule nextResponses_counter)
  have fresh: "fst (nextResponses uc (length (responses cfg) + k) m p reg) =
              map Some (responses cfg @ replicate k (last (responses cfg)))"
    if z: "callCount cfg = 0"
  proof -
    have "fst (nextResponses uc (length (responses cfg) + k) m p reg) =
        map Some (map (\<lambda>i. responses cfg ! min i (length (responses cfg) - 1))
          [0..<length (responses cfg) + k])"
      unfolding seq by (simp add: z)
    also have "\<dots> = map Some (responses cfg @ replicate k (last (responses cfg)))"
      by (simp only: clamp_list[OF assms(2)])
    finally show ?thesis .
  qed
  show ?thesis using step after seq cnt fresh by blast
qed

theorem getNextResponse_sequence_witness:
  "fst (nextResponses no_table (2 + 3) ''get'' ''/api/test''
      (configure no_table \<lparr>method_name = ''GET'', path = ''/api/test'',
          responses = [\<lparr>status = 500, headers = None, body = None\<rparr>,
                       \<lparr>status = 200, headers = None, body = Some True\<rparr>], callCount = 7\<rparr> []))
   = map Some [\<lparr>status = 500, headers = None, body = None\<rparr>,
               \<lparr>status = 200, headers = None, body = Some True\<rparr>,
               \<lparr>status = 200, headers = None, body = Some True\<rparr>,
               \<lparr>status = 200, headers = None, body = Some True\<rparr>,
               \<lparr>status = 200, headers = None, body = Some True\<rparr>]"
proof -
  let ?rs = "[\<lparr>status = 500, headers = None, body = None\<rparr>,
              \<lparr>status = 200, headers = None, body = Some True\<rparr>]"
  let ?c = "\<lparr>method_name = ''GET'', path = ''/api/test'', responses = ?rs, callCount = 7\<rparr>"
  let ?d = "\<lparr>method_name = ''GET'', path = ''/api/test'', responses = ?rs, callCount = 0\<rparr>"
  have k: "makeKey no_table ''get'' ''/api/test'' = makeKey no_table ''GET'' ''/api/test''" by code_simp
  have g: "get no_table ''get'' ''/api/test'' (configure no_table ?c []) = Some ?d"
    by (simp add: get_def configure_def k)
  have r: "responses ?d \<noteq> []" by simp
  have z: "callCount ?d = 0" by simp
  have len: "length (responses ?d) + 3 = 2 + 3" by simp
  have rep: "responses ?d @ replicate 3 (last (responses ?d)) =
      [\<lparr>status = 500, headers = None, body = None\<rparr>,
       \<lparr>status = 200, headers = None, body = Some True\<rparr>,
       \<lparr>status = 200, headers = None, body = Some True\<rparr>,
       \<lparr>status = 200, headers = None, body = Some True\<rparr>,
       \<lparr>status = 200, headers = None, body = Some True\<rparr>]"
    by (simp add: numeral_3_eq_3)
  have "fst (nextResponses no_table (length (responses ?d) + 3) ''get'' ''/api/test'' (configure no_table ?c [])) =
        map Some (responses ?d @ replicate 3 (last (responses ?d)))"
    using getNextResponse_sequence[OF g r, of 0 3] z by blast
  then show ?thesis unfolding len rep .
qed

text \<open>
  Claim C3. Configuring a key again (looked up by any method and path with the same key)
  replaces the entry by the new configuration with counter zero, in place: the first
  \<^verbatim>\<open>getNextResponse\<close> afterwards returns the response at index 0 of the new sequence and
  leaves the counter at one, and the keys of the registry are the same as before when the
  key was present.
\<close>

theorem configure_resets_counter:
  assumes "makeKey uc m p = makeKey uc (method_name cfg) (path cfg)" and "responses cfg \<noteq> []"
  shows "get uc m p (configure uc cfg reg) = Some (cfg\<lparr>callCount := 0\<rparr>)
       \<and> filter (\<lambda>e. fst e = makeKey uc m p) (configure uc cfg reg) \<noteq> []
       \<and> fst (getNextResponse uc m p (configure uc cfg reg)) = Some (responses cfg ! 0)
       \<and> get uc m p (snd (getNextResponse uc m p (configure uc cfg reg))) = Some (cfg\<lparr>callCount := 1\<rparr>)
       \<and> (get uc m p reg \<noteq> None \<longrightarrow> map fst (configure uc cfg reg) = map fst reg)"
proof -
  have g: "get uc m p (configure uc cfg reg) = Some (cfg\<lparr>callCount := 0\<rparr>)"
    using assms(1) by (simp add: get_def configure_def update_conv')
  have r: "responses (cfg\<lparr>callCount := 0\<rparr>) \<noteq> []" using assms(2) by simp
  have n: "getNextResponse uc m p (configure uc cfg reg) =
      (Some (responses cfg ! 0),
       Map_set (makeKey uc m p) (cfg\<lparr>callCount := 1\<rparr>) (configure uc cfg reg))"
    using getNextResponse_step[OF g r] by simp
  have k: "get uc m p reg \<noteq> None \<longrightarrow> map fst (configure uc cfg reg) = map fst reg"
    using assms(1) by (auto simp: get_def configure_def update_keys map_of_eq_None_iff)
  have "makeKey uc m p \<in> fst ` set (configure uc cfg reg)"
    using g by (auto simp: get_def dest: map_of_SomeD intro: rev_image_eqI)
  then have f: "filter (\<lambda>e. fst e = makeKey uc m p) (configure uc cfg reg) \<noteq> []"
    by (force simp: filter_empty_conv)
  show ?thesis using g n k f by (simp add: get_after_set)
qed

theorem configure_resets_counter_witness:
  "makeKey no_table ''get'' ''/api/test'' =
     makeKey no_table (method_name \<lparr>method_name = ''GET'', path = ''/api/test'',
                responses = [\<lparr>status = 200, headers = None, body = Some ''v2''\<rparr>], callCount = 5\<rparr>)
             (path \<lparr>method_name = ''GET'', path = ''/api/test'',
                responses = [\<lparr>status = 200, headers = None, body = Some ''v2''\<rparr>], callCount = 5\<rparr>)
   \<and> get no_table ''GET'' ''/api/test''
        (snd (getNextResponse no_table ''GET'' ''/api/test''
          (configure no_table \<lparr>method_name = ''GET'', path = ''/api/test'',
             responses = [\<lparr>status = 500, headers = None, body = Some ''v1''\<rparr>], callCount = 0\<rparr> [])))
       = Some \<lparr>method_name = ''GET'', path = ''/api/test'',
             responses = [\<lparr>status = 500, headers = None, body = Some ''v1''\<rparr>], callCount = 1\<rparr>
   \<and> fst (getNextResponse no_table ''get'' ''/api/test''
        (configure no_table \<lparr>method_name = ''GET'', path = ''/api/test'',
                responses = [\<lparr>status = 200, headers = None, body = Some ''v2''\<rparr>], callCount = 5\<rparr>
          (snd (getNextResponse no_table ''GET'' ''/api/test''
            (configure no_table \<lparr>method_name = ''GET'', path = ''/api/test'',
               responses = [\<lparr>status = 500, headers = None, body = Some ''v1''\<rparr>], callCount = 0\<rparr> [])))))
       = Some \<lparr>status = 200, headers = None, body = Some ''v2''\<rparr>"
proof -
  let ?old = "\<lparr>method_name = ''GET'', path = ''/api/test'',
             responses = [\<lparr>status = 500, headers = None, body = Some ''v1''\<rparr>], callCount = 0\<rparr>"
  let ?new = "\<lparr>method_name = ''GET'', path = ''/api/test'',
                responses = [\<lparr>status = 200, headers = None, body = Some ''v2''\<rparr>], callCount = 5\<rparr>"
  let ?reg = "snd (getNextResponse no_table ''GET'' ''/api/test'' (configure no_table ?old []))"
  have k: "makeKey no_table ''get'' ''/api/test'' = makeKey no_table (method_name ?new) (path ?new)" by code_simp
  have r: "responses ?new \<noteq> []" by simp
  have o: "get no_table ''GET'' ''/api/test'' ?reg = Some (?old\<lparr>callCount := 1\<rparr>)"
    by (simp add: getNextResponse_def get_def configure_def update_conv')
  have "fst (getNextResponse no_table ''get'' ''/api/test'' (configure no_table ?new ?reg)) = Some (responses ?new ! 0)"
    using configure_resets_counter[OF k r, of ?reg] by blast
  then show ?thesis using k o by simp
qed

text \<open>
  Claim C8, as amended. The key is the upper-cased method, a colon and the path. For two
  methods whose upper-cased forms contain no colon, two (method, path) pairs have the same
  key exactly when the methods have the same upper-cased form and the paths are the same
  string; for ASCII methods, that is exactly when the methods are equal up to case and the
  paths are the same string. Configuring one pair leaves the lookup of every pair with a
  different key as it was. So configuring \<^verbatim>\<open>GET /api/users\<close> affects neither
  \<^verbatim>\<open>POST /api/users\<close> nor \<^verbatim>\<open>GET /api/users/123\<close>.
\<close>

theorem makeKey_injective_on_methods:
  assumes "CHR '':'' \<notin> set (toUpperCase uc m1)" and "CHR '':'' \<notin> set (toUpperCase uc m2)"
  shows "(makeKey uc m1 p1 = makeKey uc m2 p2) = (toUpperCase uc m1 = toUpperCase uc m2 \<and> p1 = p2)
       \<and> (list_all is_ascii m1 \<and> list_all is_ascii m2 \<longrightarrow>
            (makeKey uc m1 p1 = makeKey uc m2 p2) = (equal_up_to_case m1 m2 \<and> p1 = p2))
       \<and> (makeKey uc m1 p1 \<noteq> makeKey uc m2 p2 \<longrightarrow>
            get uc m2 p2
              (configure uc \<lparr>method_name = m1, path = p1, responses = rs, callCount = c\<rparr> reg)
              = get uc m2 p2 reg)"
proof -
  have a: "(makeKey uc m1 p1 = makeKey uc m2 p2) = (toUpperCase uc m1 = toUpperCase uc m2 \<and> p1 = p2)"
    using assms by (rule makeKey_eq_iff)
  have b: "(makeKey uc m1 p1 = makeKey uc m2 p2) = (equal_up_to_case m1 m2 \<and> p1 = p2)"
    if "list_all is_ascii m1 \<and> list_all is_ascii m2"
    using a that by (simp only: toUpperCase_eq_iff)
  have c: "makeKey uc m1 p1 \<noteq> makeKey uc m2 p2 \<longrightarrow>
            get uc m2 p2
              (configure uc \<lparr>method_name = m1, path = p1, responses = rs, callCount = c\<rparr> reg)
              = get uc m2 p2 reg"
    by (simp add: get_def configure_def update_conv')
  show ?thesis using a b c by blast
qed

theorem makeKey_injective_on_methods_witness:
  "CHR '':'' \<notin> set (toUpperCase no_table ''GET'')
   \<and> CHR '':'' \<notin> set (toUpperCase no_table ''POST'')
   \<and> CHR '':'' \<notin> set (toUpperCase no_table ''get'')
   \<and> list_all is_ascii ''GET'' \<and> list_all is_ascii ''POST'' \<and> list_all is_ascii ''get''
   \<and> \<not> equal_up_to_case ''GET'' ''POST''
   \<and> equal_up_to_case ''GET'' ''get''
   \<and> makeKey no_table ''GET'' ''/api/users'' \<noteq> makeKey no_table ''POST'' ''/api/users''
   \<and> makeKey no_table ''GET'' ''/api/users'' \<noteq> makeKey no_table ''GET'' ''/api/users/123''
   \<and> makeKey no_table ''GET'' ''/api/users'' = makeKey no_table ''get'' ''/api/users''
   \<and> get no_table ''POST'' ''/api/users''
        (configure no_table
           \<lparr>method_name = ''GET'', path = ''/api/users'', responses = [], callCount = 0\<rparr>
           ([] :: unit registry)) = None
   \<and> get no_table ''GET'' ''/api/users/123''
        (configure no_table
           \<lparr>method_name = ''GET'', path = ''/api/users'', responses = [], callCount = 0\<rparr>
           ([] :: unit registry)) = None"
proof -
  have g: "CHR '':'' \<notin> set (toUpperCase no_table ''GET'')"
    and p: "CHR '':'' \<notin> set (toUpperCase no_table ''POST'')"
    and l: "CHR '':'' \<notin> set (toUpperCase no_table ''get'')"
    by code_simp+
  have ag: "list_all is_ascii ''GET''" and ap: "list_all is_ascii ''POST''"
    and al: "list_all is_ascii ''get''"
    by code_simp+
  have e1: "\<not> equal_up_to_case ''GET'' ''POST''"
    by (simp add: equal_up_to_case_def)
  have e3: "equal_up_to_case ''GET'' ''get''"
    by code_simp
  note t1 = makeKey_injective_on_methods[OF g p, of "''/api/users''" "''/api/users''" "[]" 0
      "[] :: unit registry"]
  note t2 = makeKey_injective_on_methods[OF g g, of "''/api/users''" "''/api/users/123''" "[]" 0
      "[] :: unit registry"]
  note t3 = makeKey_injective_on_methods[OF g l, of "''/api/users''" "''/api/users''" "[]" 0
      "[] :: unit registry"]
  have k1: "makeKey no_table ''GET'' ''/api/users'' \<noteq> makeKey no_table ''POST'' ''/api/users''"
    using t1 ag ap e1 by blast
  have k2: "makeKey no_table ''GET'' ''/api/users'' \<noteq> makeKey no_table ''GET'' ''/api/users/123''"
    using t2 by simp
  have k3: "makeKey no_table ''GET'' ''/api/users'' = makeKey no_table ''get'' ''/api/users''"
    using t3 ag al e3 by blast
  have n1: "get no_table ''POST'' ''/api/users''
        (configure no_table
           \<lparr>method_name = ''GET'', path = ''/api/users'', responses = [], callCount = 0\<rparr>
           ([] :: unit registry)) = get no_table ''POST'' ''/api/users'' ([] :: unit registry)"
    using t1 k1 by blast
  have n2: "get no_table ''GET'' ''/api/users/123''
        (configure no_table
           \<lparr>method_name = ''GET'', path = ''/api/users'', responses = [], callCount = 0\<rparr>
           ([] :: unit registry)) = get no_table ''GET'' ''/api/users/123'' ([] :: unit registry)"
    using t2 k2 by blast
  have z: "get no_table m p ([] :: unit registry) = None" for m p
    by (simp add: get_def)
  show ?thesis
    using g p l ag ap al e1 e3 k1 k2 k3 n1 n2 by (simp only: z simp_thms)
qed

text \<open>
  The restriction on the colon is needed: the method \<^verbatim>\<open>get:x\<close> with path \<^verbatim>\<open>y\<close> and the
  method \<^verbatim>\<open>GET\<close> with path \<^verbatim>\<open>X:y\<close>, both ASCII, have the same key although the methods are
  not equal up to case and the paths differ, so a configuration of the first is returned
  for the second.
\<close>

theorem makeKey_collision_counterexample:
  "\<not> ((makeKey no_table ''get:x'' ''y'' = makeKey no_table ''GET'' ''X:y'')
        = (equal_up_to_case ''get:x'' ''GET'' \<and> ''y'' = ''X:y''))
   \<and> list_all is_ascii ''get:x'' \<and> list_all is_ascii ''GET''
   \<and> get no_table ''GET'' ''X:y''
        (configure no_table
           \<lparr>method_name = ''get:x'', path = ''y'', responses = [], callCount = 0\<rparr>
           ([] :: unit registry))
       = Some \<lparr>method_name = ''get:x'', path = ''y'', responses = [], callCount = 0\<rparr>"
proof -
  have k: "makeKey no_table ''get:x'' ''y'' = makeKey no_table ''GET'' ''X:y''" by code_simp
  have a: "list_all is_ascii ''get:x''" "list_all is_ascii ''GET''" by code_simp+
  show ?thesis using k a by (simp add: get_def configure_def)
qed

text \<open>
  Claim C10. When no configuration exists for the method and path, or the configured
  response sequence is empty, \<^verbatim>\<open>getNextResponse\<close> returns \<^verbatim>\<open>null\<close> and the registry after
  the call is the registry before it: no entry is created and no call counter moves.
\<close>

theorem getNextResponse_absent_unchanged:
  assumes "get uc m p reg = None \<or> (\<exists>c. get uc m p reg = Some c \<and> responses c = [])"
  shows "getNextResponse uc m p reg = (None, reg)"
  using assms by (auto simp: getNextResponse_def)

theorem getNextResponse_absent_unchanged_witness:
  "get no_table ''GET'' ''/api/unknown'' ([] :: unit registry) = None
   \<and> getNextResponse no_table ''GET'' ''/api/unknown'' ([] :: unit registry) = (None, [])
   \<and> get no_table ''get'' ''/e''
        (configure no_table \<lparr>method_name = ''GET'', path = ''/e'', responses = [], callCount = 0\<rparr>
           ([] :: unit registry))
       = Some \<lparr>method_name = ''GET'', path = ''/e'', responses = [], callCount = 0\<rparr>
   \<and> getNextResponse no_table ''get'' ''/e''
        (configure no_table \<lparr>method_name = ''GET'', path = ''/e'', responses = [], callCount = 0\<rparr>
           ([] :: unit registry))
       = (None, configure no_table \<lparr>method_name = ''GET'', path = ''/e'', responses = [], callCount = 0\<rparr> [])"
proof -
  let ?c = "\<lparr>method_name = ''GET'', path = ''/e'', responses = [], callCount = 0\<rparr>
              :: unit endpoint_config"
  have k: "makeKey no_table ''get'' ''/e'' = makeKey no_table ''GET'' ''/e''" by code_simp
  have a: "get no_table ''GET'' ''/api/unknown'' ([] :: unit registry) = None"
    by (simp add: get_def)
  have b: "get no_table ''get'' ''/e'' (configure no_table ?c []) = Some ?c"
    by (simp add: get_def configure_def k)
  have b': "get no_table ''get'' ''/e'' (configure no_table ?c []) = None
      \<or> (\<exists>c. get no_table ''get'' ''/e'' (configure no_table ?c []) = Some c \<and> responses c = [])"
    using b by simp
  show ?thesis
    using getNextResponse_absent_unchanged[of no_table "''GET''" "''/api/unknown''" "[] :: unit registry"]
      getNextResponse_absent_unchanged[OF b'] a b by simp
qed

subsection \<open>Session store\<close>

lemma deleteSession_sessions:
  "sessions (fst (snd (deleteSession sid mgr))) = filter (\<lambda>e. fst e \<noteq> sid) (sessions mgr)"
proof (cases "Map_get (sessions mgr) sid")
  case None
  then have "sid \<notin> fst ` set (sessions mgr)" by (simp add: map_of_eq_None_iff)
  then have "filter (\<lambda>e. fst e \<noteq> sid) (sessions mgr) = sessions mgr"
    by (auto simp: filter_id_conv)
  then show ?thesis using None by (simp add: deleteSession_def)
next
  case (Some s)
  have "Map_delete sid (sessions mgr) = filter (\<lambda>e. fst e \<noteq> sid) (sessions mgr)"
    by (auto simp: AList.delete_eq intro: filter_cong)
  then show ?thesis using Some by (simp add: deleteSession_def)
qed

lemma deleteSession_config: "config (fst (snd (deleteSession sid mgr))) = config mgr"
  by (simp add: deleteSession_def split: option.splits)

lemma deleteSession_closed:
  "snd (snd (deleteSession sid mgr)) =
     (case Map_get (sessions mgr) sid of
        None \<Rightarrow> []
      | Some s \<Rightarrow> (case websocket s of None \<Rightarrow> [] | Some ws \<Rightarrow> [ws]))"
  by (simp add: deleteSession_def split: option.splits)

lemma deleteEach_sessions:
  "sessions (fst (deleteEach ids mgr)) = filter (\<lambda>e. fst e \<notin> set ids) (sessions mgr)"
proof (induction ids arbitrary: mgr)
  case Nil
  then show ?case by simp
next
  case (Cons sid ids)
  have "sessions (fst (deleteEach (sid # ids) mgr)) =
      sessions (fst (deleteEach ids (fst (snd (deleteSession sid mgr)))))"
    by (simp add: split_beta)
  also have "\<dots> = filter (\<lambda>e. fst e \<notin> set ids) (filter (\<lambda>e. fst e \<noteq> sid) (sessions mgr))"
    by (simp only: Cons.IH deleteSession_sessions)
  also have "\<dots> = filter (\<lambda>e. fst e \<notin> set (sid # ids)) (sessions mgr)"
    by (auto intro: filter_cong)
  finally show ?case .
qed

lemma deleteEach_config: "config (fst (deleteEach ids mgr)) = config mgr"
  by (induction ids arbitrary: mgr) (simp_all add: split_beta deleteSession_config)

lemma deleteEach_closed:
  "distinct ids \<Longrightarrow>
   snd (deleteEach ids mgr) =
     concat (map (\<lambda>k. case Map_get (sessions mgr) k of
                         None \<Rightarrow> []
                       | Some s \<Rightarrow> (case websocket s of None \<Rightarrow> [] | Some ws \<Rightarrow> [ws])) ids)"
proof (induction ids arbitrary: mgr)
  case Nil
  then show ?case by simp
next
  case (Cons sid ids)
  let ?mgr' = "fst (snd (deleteSession sid mgr))"
  have d: "distinct ids" and n: "sid \<notin> set ids" using Cons.prems by simp_all
  have same: "Map_get (sessions ?mgr') k = Map_get (sessions mgr) k" if "k \<in> set ids" for k
  proof -
    have "k \<noteq> sid" using that n by auto
    then show ?thesis
      by (simp add: deleteSession_def split: option.splits)
  qed
  have "snd (deleteEach (sid # ids) mgr) =
      snd (snd (deleteSession sid mgr)) @ snd (deleteEach ids ?mgr')"
    by (simp add: split_beta)
  also have "snd (deleteEach ids ?mgr') =
      concat (map (\<lambda>k. case Map_get (sessions ?mgr') k of
                         None \<Rightarrow> []
                       | Some s \<Rightarrow> (case websocket s of None \<Rightarrow> [] | Some ws \<Rightarrow> [ws])) ids)"
    using d by (rule Cons.IH)
  also have "\<dots> =
      concat (map (\<lambda>k. case Map_get (sessions mgr) k of
                         None \<Rightarrow> []
                       | Some s \<Rightarrow> (case websocket s of None \<Rightarrow> [] | Some ws \<Rightarrow> [ws])) ids)"
    using same by (auto intro!: arg_cong[where f=concat] map_cong)
  finally show ?case by (simp add: deleteSession_closed)
qed

text \<open>The ids of the store stay pairwise distinct under every operation, from the empty
  store of the constructor on.\<close>

lemma newSessionManager_distinct: "distinct (map fst (sessions (newSessionManager cfg)))"
  by (simp add: newSessionManager_def)

lemma getOrCreate_distinct:
  "distinct (map fst (sessions mgr)) \<Longrightarrow>
   distinct (map fst (sessions (snd (getOrCreate tc ta sid mgr))))"
  by (simp add: getOrCreate_def Let_def distinct_update split: option.splits)

lemma updateActivity_distinct:
  "distinct (map fst (sessions mgr)) \<Longrightarrow>
   distinct (map fst (sessions (updateActivity t sid mgr)))"
  by (simp add: updateActivity_def distinct_update split: option.splits)

lemma store_distinct:
  "distinct (map fst (sessions mgr)) \<Longrightarrow> distinct (map fst (sessions (store sid s mgr)))"
  by (simp add: store_def distinct_update)

lemma deleteSession_distinct:
  "distinct (map fst (sessions mgr)) \<Longrightarrow>
   distinct (map fst (sessions (fst (snd (deleteSession sid mgr)))))"
  unfolding deleteSession_sessions by (rule distinct_map_filter)

lemma dataPlane_distinct:
  "distinct (map fst (sessions mgr)) \<Longrightarrow>
   distinct (map fst (sessions (snd (dataPlane uc clk sid m p mgr))))"
  unfolding dataPlane_def Let_def split_beta
  by (simp add: store_distinct updateActivity_distinct getOrCreate_distinct)

lemma postEndpoints_distinct:
  "distinct (map fst (sessions mgr)) \<Longrightarrow>
   distinct (map fst (sessions (snd (postEndpoints uc clk sid m p rs mgr))))"
  unfolding postEndpoints_def Let_def split_beta
  by (simp add: store_distinct updateActivity_distinct getOrCreate_distinct)

lemma cleanupExpired_distinct:
  "distinct (map fst (sessions mgr)) \<Longrightarrow>
   distinct (map fst (sessions (fst (cleanupExpired now mgr))))"
  unfolding cleanupExpired_def deleteEach_sessions by (rule distinct_map_filter)

text \<open>
  Claim C5. In a store whose ids are pairwise distinct (as the keys of a \<^verbatim>\<open>Map\<close> are), the
  sweep at clock reading \<open>now\<close> leaves exactly the sessions with
  \<open>now - lastActivityAt \<le> ttl\<close>, unchanged and in their order, removes every session with
  \<open>now - lastActivityAt > ttl\<close>, closes the sockets of the removed sessions as
  \<^verbatim>\<open>deleteSession\<close> does, and keeps the configuration.
\<close>

theorem cleanupExpired_exact:
  assumes "distinct (map fst (sessions mgr))"
  shows "sessions (fst (cleanupExpired now mgr)) =
           filter (\<lambda>(sid, s). \<not> (now - lastActivityAt s > ttl (config mgr))) (sessions mgr)
       \<and> config (fst (cleanupExpired now mgr)) = config mgr
       \<and> snd (cleanupExpired now mgr) =
           concat (map (\<lambda>(sid, s). case websocket s of None \<Rightarrow> [] | Some ws \<Rightarrow> [ws])
             (filter (\<lambda>(sid, s). now - lastActivityAt s > ttl (config mgr)) (sessions mgr)))
       \<and> Map_get (sessions (fst (cleanupExpired now mgr))) k =
           (case Map_get (sessions mgr) k of
              None \<Rightarrow> None
            | Some s \<Rightarrow> if now - lastActivityAt s > ttl (config mgr) then None else Some s)"
proof -
  let ?P = "\<lambda>(sid, s). now - lastActivityAt s > ttl (config mgr)"
  let ?sock = "\<lambda>s. case websocket s of None \<Rightarrow> [] | Some ws \<Rightarrow> [ws]"
  have look: "Map_get (sessions mgr) sid = Some s" if "(sid, s) \<in> set (sessions mgr)" for sid s
    using assms that by simp
  have mem: "(fst e \<in> set (expired now mgr)) = ?P e" if e: "e \<in> set (sessions mgr)" for e
  proof
    assume "fst e \<in> set (expired now mgr)"
    then obtain e' where e': "e' \<in> set (sessions mgr)" "?P e'" "fst e' = fst e"
      by (auto simp: expired_def)
    have "Map_get (sessions mgr) (fst e) = Some (snd e)" using look[of "fst e" "snd e"] e by simp
    moreover have "Map_get (sessions mgr) (fst e') = Some (snd e')"
      using look[of "fst e'" "snd e'"] e'(1) by simp
    then have "Map_get (sessions mgr) (fst e) = Some (snd e')"
      by (simp only: e'(3))
    ultimately have "e' = e" using e'(3) by (simp add: prod_eq_iff)
    then show "?P e" using e'(2) by simp
  next
    assume "?P e"
    then show "fst e \<in> set (expired now mgr)" using e by (force simp: expired_def)
  qed
  have s: "sessions (fst (cleanupExpired now mgr)) = filter (\<lambda>e. \<not> ?P e) (sessions mgr)"
    unfolding cleanupExpired_def deleteEach_sessions using mem by (auto intro: filter_cong)
  then have s': "sessions (fst (cleanupExpired now mgr)) =
           filter (\<lambda>(sid, s). \<not> (now - lastActivityAt s > ttl (config mgr))) (sessions mgr)"
    by (auto intro: filter_cong)
  have c: "config (fst (cleanupExpired now mgr)) = config mgr"
    by (simp add: cleanupExpired_def deleteEach_config)
  have dx: "distinct (expired now mgr)"
    unfolding expired_def using assms by (rule distinct_map_filter)
  have "snd (cleanupExpired now mgr) =
      concat (map (\<lambda>k. case Map_get (sessions mgr) k of None \<Rightarrow> [] | Some s \<Rightarrow> ?sock s)
        (expired now mgr))"
    unfolding cleanupExpired_def using dx by (rule deleteEach_closed)
  also have "\<dots> = concat (map (\<lambda>e. case Map_get (sessions mgr) (fst e) of None \<Rightarrow> [] | Some s \<Rightarrow> ?sock s)
        (filter ?P (sessions mgr)))"
    by (simp add: expired_def o_def)
  also have "\<dots> = concat (map (\<lambda>(sid, s). ?sock s) (filter ?P (sessions mgr)))"
    using look by (auto intro!: arg_cong[where f=concat] map_cong)
  finally have cl: "snd (cleanupExpired now mgr) =
      concat (map (\<lambda>(sid, s). ?sock s) (filter ?P (sessions mgr)))" .
  have lk: "Map_get (sessions (fst (cleanupExpired now mgr))) k =
           (case Map_get (sessions mgr) k of
              None \<Rightarrow> None
            | Some s \<Rightarrow> if now - lastActivityAt s > ttl (config mgr) then None else Some s)"
  proof (cases "Map_get (sessions mgr) k")
    case None
    then have "k \<notin> fst ` set (sessions mgr)" by (simp add: map_of_eq_None_iff)
    then have "k \<notin> fst ` set (filter (\<lambda>e. \<not> ?P e) (sessions mgr))" by auto
    then have "Map_get (filter (\<lambda>e. \<not> ?P e) (sessions mgr)) k = None"
      by (rule map_of_eq_None_iff[THEN iffD2])
    then show ?thesis unfolding s using None by simp
  next
    case (Some v)
    then have in_s: "(k, v) \<in> set (sessions mgr)" by (rule map_of_SomeD)
    show ?thesis
    proof (cases "?P (k, v)")
      case True
      have "k \<notin> fst ` set (filter (\<lambda>e. \<not> ?P e) (sessions mgr))"
      proof
        assume "k \<in> fst ` set (filter (\<lambda>e. \<not> ?P e) (sessions mgr))"
        then obtain v' where v': "(k, v') \<in> set (sessions mgr)" "\<not> ?P (k, v')" by auto
        then have "v' = v" using look[of k v'] Some by simp
        then show False using v' True by simp
      qed
      then have "Map_get (filter (\<lambda>e. \<not> ?P e) (sessions mgr)) k = None"
        by (rule map_of_eq_None_iff[THEN iffD2])
      then show ?thesis unfolding s using Some True by simp
    next
      case False
      have dist: "distinct (map fst (filter (\<lambda>e. \<not> ?P e) (sessions mgr)))"
        using assms by (rule distinct_map_filter)
      have "(k, v) \<in> set (filter (\<lambda>e. \<not> ?P e) (sessions mgr))"
        using in_s False by simp
      then have "Map_get (filter (\<lambda>e. \<not> ?P e) (sessions mgr)) k = Some v"
        using dist by (rule map_of_is_SomeI[rotated])
      then show ?thesis unfolding s using Some False by simp
    qed
  qed
  show ?thesis using s' c cl lk by blast
qed

theorem cleanupExpired_exact_witness:
  "distinct (map fst
     [(''s1'', \<lparr>id_session = ''s1'', createdAt = 0, lastActivityAt = 0, endpoints = [],
                websocket = Some 4, requestHistory = []\<rparr> :: unit session),
      (''s2'', \<lparr>id_session = ''s2'', createdAt = 10, lastActivityAt = 50, endpoints = [],
                websocket = Some 5, requestHistory = []\<rparr>),
      (''s3'', \<lparr>id_session = ''s3'', createdAt = 20, lastActivityAt = 120, endpoints = [],
                websocket = None, requestHistory = []\<rparr>)])
   \<and> sessions (fst (cleanupExpired 150
        \<lparr>sessions =
          [(''s1'', \<lparr>id_session = ''s1'', createdAt = 0, lastActivityAt = 0, endpoints = [],
                     websocket = Some 4, requestHistory = []\<rparr> :: unit session),
           (''s2'', \<lparr>id_session = ''s2'', createdAt = 10, lastActivityAt = 50, endpoints = [],
                     websocket = Some 5, requestHistory = []\<rparr>),
           (''s3'', \<lparr>id_session = ''s3'', createdAt = 20, lastActivityAt = 120, endpoints = [],
                     websocket = None, requestHistory = []\<rparr>)],
         config = \<lparr>ttl = 100\<rparr>\<rparr>))
     = [(''s2'', \<lparr>id_session = ''s2'', createdAt = 10, lastActivityAt = 50, endpoints = [],
                  websocket = Some 5, requestHistory = []\<rparr>),
        (''s3'', \<lparr>id_session = ''s3'', createdAt = 20, lastActivityAt = 120, endpoints = [],
                  websocket = None, requestHistory = []\<rparr>)]
   \<and> snd (cleanupExpired 150
        \<lparr>sessions =
          [(''s1'', \<lparr>id_session = ''s1'', createdAt = 0, lastActivityAt = 0, endpoints = [],
                     websocket = Some 4, requestHistory = []\<rparr> :: unit session),
           (''s2'', \<lparr>id_session = ''s2'', createdAt = 10, lastActivityAt = 50, endpoints = [],
                     websocket = Some 5, requestHistory = []\<rparr>),
           (''s3'', \<lparr>id_session = ''s3'', createdAt = 20, lastActivityAt = 120, endpoints = [],
                     websocket = None, requestHistory = []\<rparr>)],
         config = \<lparr>ttl = 100\<rparr>\<rparr>) = [4]"
proof -
  let ?mgr = "\<lparr>sessions =
          [(''s1'', \<lparr>id_session = ''s1'', createdAt = 0, lastActivityAt = 0, endpoints = [],
                     websocket = Some 4, requestHistory = []\<rparr> :: unit session),
           (''s2'', \<lparr>id_session = ''s2'', createdAt = 10, lastActivityAt = 50, endpoints = [],
                     websocket = Some 5, requestHistory = []\<rparr>),
           (''s3'', \<lparr>id_session = ''s3'', createdAt = 20, lastActivityAt = 120, endpoints = [],
                     websocket = None, requestHistory = []\<rparr>)],
         config = \<lparr>ttl = 100\<rparr>\<rparr>"
  have d: "distinct (map fst (sessions ?mgr))" by simp
  show ?thesis
    using cleanupExpired_exact[OF d, of 150 "''s1''"] d by simp
qed

text \<open>
  Claim C6, as amended. \<^verbatim>\<open>deleteSession\<close> returns whether a session with the id was in the
  store. When one was, \<^verbatim>\<open>close()\<close> is called on the socket held in the session's own
  \<^verbatim>\<open>websocket\<close> field if that field is set, and on nothing otherwise; afterwards the id is
  absent, every other id and the configuration are as before. When none was, the result is
  \<^verbatim>\<open>false\<close>, the store is unchanged and nothing is closed. The connection hub is not an
  argument of the function: it is neither read nor changed.
\<close>

theorem deleteSession_result:
  "fst (deleteSession sid mgr) = Map_has (sessions mgr) sid
   \<and> sid \<notin> fst ` set (sessions (fst (snd (deleteSession sid mgr))))
   \<and> Map_get (sessions (fst (snd (deleteSession sid mgr)))) sid = None
   \<and> (\<forall>k. k \<noteq> sid \<longrightarrow>
         Map_get (sessions (fst (snd (deleteSession sid mgr)))) k = Map_get (sessions mgr) k)
   \<and> config (fst (snd (deleteSession sid mgr))) = config mgr
   \<and> (Map_get (sessions mgr) sid = None \<longrightarrow> deleteSession sid mgr = (False, mgr, []))
   \<and> (\<forall>s. Map_get (sessions mgr) sid = Some s \<longrightarrow>
         snd (snd (deleteSession sid mgr)) = (case websocket s of None \<Rightarrow> [] | Some ws \<Rightarrow> [ws]))"
proof -
  have a: "fst (deleteSession sid mgr) = Map_has (sessions mgr) sid"
    by (simp add: deleteSession_def Map_has_def split: option.splits)
  have b: "sid \<notin> fst ` set (sessions (fst (snd (deleteSession sid mgr))))"
    unfolding deleteSession_sessions by auto
  then have c: "Map_get (sessions (fst (snd (deleteSession sid mgr)))) sid = None"
    by (rule map_of_eq_None_iff[THEN iffD2])
  have d: "\<forall>k. k \<noteq> sid \<longrightarrow>
         Map_get (sessions (fst (snd (deleteSession sid mgr)))) k = Map_get (sessions mgr) k"
    by (simp add: deleteSession_def split: option.splits)
  have e: "Map_get (sessions mgr) sid = None \<longrightarrow> deleteSession sid mgr = (False, mgr, [])"
    by (simp add: deleteSession_def)
  have f: "\<forall>s. Map_get (sessions mgr) sid = Some s \<longrightarrow>
         snd (snd (deleteSession sid mgr)) = (case websocket s of None \<Rightarrow> [] | Some ws \<Rightarrow> [ws])"
    by (simp add: deleteSession_def)
  show ?thesis using a b c d e f deleteSession_config[of sid mgr] by blast
qed

theorem deleteSession_result_witness:
  "Map_get (sessions (\<lparr>sessions =
       [(''s1'', \<lparr>id_session = ''s1'', createdAt = 1, lastActivityAt = 9, endpoints = [],
           websocket = Some 4, requestHistory = []\<rparr>)],
       config = \<lparr>ttl = 100\<rparr>\<rparr> :: unit session_manager)) ''s1''
     = Some \<lparr>id_session = ''s1'', createdAt = 1, lastActivityAt = 9, endpoints = [],
           websocket = Some 4, requestHistory = []\<rparr>
   \<and> deleteSession ''s1'' (\<lparr>sessions =
       [(''s1'', \<lparr>id_session = ''s1'', createdAt = 1, lastActivityAt = 9, endpoints = [],
           websocket = Some 4, requestHistory = []\<rparr>)],
       config = \<lparr>ttl = 100\<rparr>\<rparr> :: unit session_manager)
     = (True, \<lparr>sessions = [], config = \<lparr>ttl = 100\<rparr>\<rparr>, [4])
   \<and> Map_get (sessions (\<lparr>sessions = [], config = \<lparr>ttl = 100\<rparr>\<rparr> :: unit session_manager)) ''s1'' = None
   \<and> deleteSession ''s1'' (\<lparr>sessions = [], config = \<lparr>ttl = 100\<rparr>\<rparr> :: unit session_manager)
     = (False, \<lparr>sessions = [], config = \<lparr>ttl = 100\<rparr>\<rparr>, [])"
proof -
  let ?s = "\<lparr>id_session = ''s1'', createdAt = 1, lastActivityAt = 9, endpoints = [],
           websocket = Some 4, requestHistory = []\<rparr> :: unit session"
  let ?mgr = "\<lparr>sessions = [(''s1'', ?s)], config = \<lparr>ttl = 100\<rparr>\<rparr>"
  let ?e = "\<lparr>sessions = [], config = \<lparr>ttl = 100\<rparr>\<rparr> :: unit session_manager"
  have p: "Map_get (sessions ?mgr) ''s1'' = Some ?s" by simp
  have q: "Map_get (sessions ?e) ''s1'' = None" by simp
  have "snd (snd (deleteSession ''s1'' ?mgr)) = (case websocket ?s of None \<Rightarrow> [] | Some ws \<Rightarrow> [ws])"
    using deleteSession_result[of "''s1''" ?mgr] p by blast
  moreover have "fst (deleteSession ''s1'' ?mgr) = Map_has (sessions ?mgr) ''s1''"
    using deleteSession_result[of "''s1''" ?mgr] by blast
  moreover have "fst (snd (deleteSession ''s1'' ?mgr)) = ?e"
    by (simp add: deleteSession_def)
  ultimately have 1: "deleteSession ''s1'' ?mgr = (True, ?e, [4])"
    by (simp add: prod_eq_iff Map_has_def)
  have 2: "deleteSession ''s1'' ?e = (False, ?e, [])"
    using deleteSession_result[of "''s1''" ?e] q by blast
  show ?thesis using 1 2 p q by simp
qed

text \<open>
  The hub is not consulted: with a connection registered in the hub for \<^verbatim>\<open>s1\<close> and a
  session \<^verbatim>\<open>s1\<close> whose own \<^verbatim>\<open>websocket\<close> field is \<^verbatim>\<open>null\<close>, the session is deleted and no
  socket is closed.
\<close>

theorem deleteSession_hub_counterexample:
  "isConnected (register ''s1'' 7 []) ''s1''
   \<and> hub_get (register ''s1'' 7 []) ''s1'' = Some 7
   \<and> deleteSession ''s1''
        (snd (getOrCreate 0 0 ''s1'' (newSessionManager \<lparr>ttl = 3600000\<rparr> :: unit session_manager)))
       = (True, newSessionManager \<lparr>ttl = 3600000\<rparr>, [])"
  by (simp add: isConnected_def Map_has_def hub_get_def register_def deleteSession_def
      getOrCreate_def newSessionManager_def Let_def)

subsection \<open>Connection hub\<close>

lemma hub_step_distinct:
  "distinct (map fst h) \<Longrightarrow> distinct (map fst (hub_step h op))"
  by (cases op) (simp_all add: register_def unregister_def distinct_update distinct_delete)

lemma foldl_hub_step_distinct:
  "distinct (map fst h) \<Longrightarrow> distinct (map fst (foldl hub_step h ops))"
  by (induction ops arbitrary: h) (simp_all add: hub_step_distinct)

lemma hub_run_distinct: "distinct (map fst (hub_run ops))"
  unfolding hub_run_def by (rule foldl_hub_step_distinct) simp

lemma distinct_one_entry:
  "distinct (map fst xs) \<Longrightarrow> length (filter (\<lambda>e. fst e = k) xs) \<le> 1"
proof (induction xs)
  case Nil
  then show ?case by simp
next
  case (Cons x xs)
  show ?case
  proof (cases "fst x = k")
    case True
    then have "k \<notin> fst ` set xs" using Cons.prems by auto
    then have "filter (\<lambda>e. fst e = k) xs = []" by (auto simp: filter_empty_conv)
    then show ?thesis using True by simp
  next
    case False
    then show ?thesis using Cons by simp
  qed
qed

lemma update_entries:
  "distinct (map fst xs) \<Longrightarrow> filter (\<lambda>e. fst e = k) (AList.update k v xs) = [(k, v)]"
proof (induction xs)
  case Nil
  then show ?case by simp
next
  case (Cons x xs)
  show ?case
  proof (cases "fst x = k")
    case True
    then have "k \<notin> fst ` set xs" using Cons.prems by auto
    then have "filter (\<lambda>e. fst e = k) xs = []" by (auto simp: filter_empty_conv)
    then show ?thesis using True by simp
  next
    case False
    then show ?thesis using Cons by simp
  qed
qed

lemma delete_entries: "filter (\<lambda>e. fst e = k) (AList.delete k xs) = []"
  by (auto simp: AList.delete_eq filter_empty_conv)

text \<open>
  Claim C9. After any sequence of \<^verbatim>\<open>register\<close> and \<^verbatim>\<open>unregister\<close> calls on a new hub, the
  hub holds at most one entry for each session id. \<^verbatim>\<open>register\<close> then leaves exactly one
  entry for the id, the new channel (any earlier channel of the id is gone), and
  \<^verbatim>\<open>unregister\<close> leaves none, whether or not there was one; the entries of the other ids
  are as before in both cases.
\<close>

theorem hub_at_most_one_channel:
  "length (filter (\<lambda>e. fst e = k) (hub_run ops)) \<le> 1
   \<and> filter (\<lambda>e. fst e = sid) (register sid ws (hub_run ops)) = [(sid, ws)]
   \<and> hub_get (register sid ws (hub_run ops)) sid = Some ws
   \<and> (k \<noteq> sid \<longrightarrow> hub_get (register sid ws (hub_run ops)) k = hub_get (hub_run ops) k)
   \<and> filter (\<lambda>e. fst e = sid) (unregister sid (hub_run ops)) = []
   \<and> \<not> isConnected (unregister sid (hub_run ops)) sid
   \<and> (k \<noteq> sid \<longrightarrow> hub_get (unregister sid (hub_run ops)) k = hub_get (hub_run ops) k)"
proof -
  have d: "distinct (map fst (hub_run ops))" by (rule hub_run_distinct)
  have a: "length (filter (\<lambda>e. fst e = k) (hub_run ops)) \<le> 1"
    using d by (rule distinct_one_entry)
  have b: "filter (\<lambda>e. fst e = sid) (register sid ws (hub_run ops)) = [(sid, ws)]"
    unfolding register_def using d by (rule update_entries)
  have c: "hub_get (register sid ws (hub_run ops)) sid = Some ws"
    by (simp add: hub_get_def register_def update_conv')
  have e: "k \<noteq> sid \<longrightarrow> hub_get (register sid ws (hub_run ops)) k = hub_get (hub_run ops) k"
    by (simp add: hub_get_def register_def update_conv')
  have f: "filter (\<lambda>e. fst e = sid) (unregister sid (hub_run ops)) = []"
    unfolding unregister_def by (rule delete_entries)
  have g: "\<not> isConnected (unregister sid (hub_run ops)) sid"
    by (simp add: isConnected_def Map_has_def unregister_def delete_conv')
  have h: "k \<noteq> sid \<longrightarrow> hub_get (unregister sid (hub_run ops)) k = hub_get (hub_run ops) k"
    by (simp add: hub_get_def unregister_def)
  show ?thesis using a b c e f g h by blast
qed

theorem hub_at_most_one_channel_witness:
  "''s2'' \<noteq> ''s1''
   \<and> hub_run [Register ''s1'' 11, Register ''s2'' 12, Register ''s1'' 13] = [(''s1'', 13), (''s2'', 12)]
   \<and> register ''s1'' 14 (hub_run [Register ''s1'' 11, Register ''s2'' 12, Register ''s1'' 13])
       = [(''s1'', 14), (''s2'', 12)]
   \<and> hub_get (register ''s1'' 14 (hub_run [Register ''s1'' 11, Register ''s2'' 12, Register ''s1'' 13])) ''s2''
       = Some 12
   \<and> unregister ''s1'' (hub_run [Register ''s1'' 11, Register ''s2'' 12, Register ''s1'' 13])
       = [(''s2'', 12)]
   \<and> hub_get (unregister ''s1'' (hub_run [Register ''s1'' 11, Register ''s2'' 12, Register ''s1'' 13])) ''s2''
       = Some 12"
proof -
  let ?ops = "[Register ''s1'' 11, Register ''s2'' 12, Register ''s1'' 13]"
  have n: "''s2'' \<noteq> ''s1''" by simp
  have r: "hub_run ?ops = [(''s1'', 13), (''s2'', 12)]"
    by (simp add: hub_run_def register_def)
  have g: "hub_get (hub_run ?ops) ''s2'' = Some 12"
    by (simp add: r hub_get_def)
  have 1: "hub_get (register ''s1'' 14 (hub_run ?ops)) ''s2'' = hub_get (hub_run ?ops) ''s2''"
    using hub_at_most_one_channel[of "''s2''" ?ops "''s1''" 14] n by blast
  have 2: "hub_get (unregister ''s1'' (hub_run ?ops)) ''s2'' = hub_get (hub_run ?ops) ''s2''"
    using hub_at_most_one_channel[of "''s2''" ?ops "''s1''" 14] n by blast
  have 3: "register ''s1'' 14 (hub_run ?ops) = [(''s1'', 14), (''s2'', 12)]"
    by (simp add: r register_def)
  have 4: "unregister ''s1'' (hub_run ?ops) = [(''s2'', 12)]"
    by (simp add: r unregister_def)
  show ?thesis using n r g 1 2 3 4 by simp
qed

text \<open>
  Claim C4. \<^verbatim>\<open>sendAction\<close> and \<^verbatim>\<open>sendData\<close> return \<^verbatim>\<open>false\<close> exactly when the hub has no
  connection for the session id, and then write nothing. When a channel is registered
  (in particular right after \<^verbatim>\<open>register\<close>), they return \<^verbatim>\<open>true\<close> and perform one write, on
  that channel, of the serialised envelope built from the arguments; under any parser that
  inverts the serialiser the content read back is that envelope.
\<close>

theorem send_fails_iff_not_connected:
  "fst (sendAction stringify sid a ps h) = isConnected h sid
   \<and> fst (sendData stringify sid d h) = isConnected h sid
   \<and> (\<not> isConnected h sid \<longrightarrow>
        sendAction stringify sid a ps h = (False, []) \<and> sendData stringify sid d h = (False, []))
   \<and> (\<forall>ws. hub_get h sid = Some ws \<longrightarrow>
        sendAction stringify sid a ps h = (True, [(ws, stringify (ActionMessage a ps))])
        \<and> sendData stringify sid d h = (True, [(ws, stringify (DataMessage d))]))
   \<and> sendAction stringify sid a ps (register sid ws' h)
       = (True, [(ws', stringify (ActionMessage a ps))])
   \<and> sendData stringify sid d (register sid ws' h) = (True, [(ws', stringify (DataMessage d))])
   \<and> (\<forall>parse. (\<forall>msg. parse (stringify msg) = Some msg) \<longrightarrow>
        map (\<lambda>(c, w). (c, parse w)) (snd (sendAction stringify sid a ps (register sid ws' h)))
          = [(ws', Some (ActionMessage a ps))]
        \<and> map (\<lambda>(c, w). (c, parse w)) (snd (sendData stringify sid d (register sid ws' h)))
          = [(ws', Some (DataMessage d))])"
  by (auto simp: sendAction_def sendData_def isConnected_def Map_has_def hub_get_def register_def
      update_conv' Let_def split: option.splits)

theorem send_fails_iff_not_connected_witness:
  "\<not> isConnected [] ''s1''
   \<and> sendAction (\<lambda>m. m) ''s1'' ''logout'' (Some ''t'') [] = (False, [])
   \<and> sendData (\<lambda>m. m) ''s1'' ''hello'' [] = (False, [])
   \<and> hub_get (register ''s1'' 7 []) ''s1'' = Some 7
   \<and> sendAction (\<lambda>m. m) ''s1'' ''logout'' (Some ''t'') (register ''s1'' 7 [])
       = (True, [(7, ActionMessage ''logout'' (Some ''t''))])
   \<and> sendData (\<lambda>m. m) ''s1'' ''hello'' (register ''s1'' 7 [])
       = (True, [(7, DataMessage ''hello'')])
   \<and> (\<forall>msg :: string ws_message. Some ((\<lambda>m. m) msg) = Some msg)
   \<and> map (\<lambda>(c, w). (c, Some w))
        (snd (sendAction (\<lambda>m. m) ''s1'' ''logout'' (Some ''t'') (register ''s1'' 7 [])))
       = [(7, Some (ActionMessage ''logout'' (Some ''t'')))]"
proof -
  have n: "\<not> isConnected [] ''s1''" by (simp add: isConnected_def Map_has_def)
  have c: "hub_get (register ''s1'' 7 []) ''s1'' = Some 7" by (simp add: hub_get_def register_def)
  have p: "\<forall>msg :: string ws_message. Some ((\<lambda>m. m) msg) = Some msg" by simp
  note t0 = send_fails_iff_not_connected[of "\<lambda>m :: string ws_message. m" "''s1''" "''logout''" "Some ''t''" "[]"
      "''hello''" 7]
  note t1 = send_fails_iff_not_connected[of "\<lambda>m :: string ws_message. m" "''s1''" "''logout''" "Some ''t''"
      "register ''s1'' 7 []" "''hello''" 7]
  have 1: "sendAction (\<lambda>m. m) ''s1'' ''logout'' (Some ''t'') [] = (False, [])
      \<and> sendData (\<lambda>m. m) ''s1'' ''hello'' [] = (False, [])"
    using t0 n by blast
  have 2: "sendAction (\<lambda>m. m) ''s1'' ''logout'' (Some ''t'') (register ''s1'' 7 [])
       = (True, [(7, ActionMessage ''logout'' (Some ''t''))])
      \<and> sendData (\<lambda>m. m) ''s1'' ''hello'' (register ''s1'' 7 []) = (True, [(7, DataMessage ''hello'')])"
    using t1 c by blast
  have 3: "map (\<lambda>(c, w). (c, Some w))
        (snd (sendAction (\<lambda>m. m) ''s1'' ''logout'' (Some ''t'') (register ''s1'' 7 [])))
       = [(7, Some (ActionMessage ''logout'' (Some ''t'')))]"
    using t0 p by blast
  show ?thesis using n c p 1 2 3 by simp
qed

subsection \<open>Data plane\<close>

lemma handler_entry:
  "current sid (fst (getOrCreate tc ta sid mgr))
      (updateActivity tu sid (snd (getOrCreate tc ta sid mgr)))
     = (fst (getOrCreate tc ta sid mgr))\<lparr>lastActivityAt := tu\<rparr>"
  by (simp add: current_def updateActivity_def getOrCreate_def Let_def update_conv'
      split: option.splits)

lemma store_updateActivity:
  "Map_get (sessions (store sid s (updateActivity tu sid mgr))) k =
     (if k = sid then Some s else Map_get (sessions mgr) k)"
  by (simp add: store_def updateActivity_def update_conv' split: option.splits)

text \<open>The data-plane handler advances the endpoint exactly as \<^verbatim>\<open>getNextResponse\<close> does, and
  appends one request record; only the configured branch trims the history.\<close>

lemma dataPlane_session:
  fixes uc clk sid m p mgr
  defines "s \<equiv> (fst (getOrCreate (t_created clk) (t_activity clk) sid mgr))\<lparr>lastActivityAt := t_update clk\<rparr>"
  defines "r \<equiv> fst (getNextResponse uc m p (endpoints s))"
  defines "entry \<equiv> \<lparr>req_method = m, req_path = p,
                      req_status = (case r of None \<Rightarrow> 404 | Some response \<Rightarrow> status response),
                      timestamp = t_stamp clk, configured = (r \<noteq> None),
                      responseTime = t_end clk - t_start clk\<rparr>"
  shows "Map_get (sessions (snd (dataPlane uc clk sid m p mgr))) sid =
     Some (s\<lparr>endpoints := snd (getNextResponse uc m p (endpoints s)),
            requestHistory :=
              (if r = None then requestHistory s @ [entry]
               else if length (requestHistory s @ [entry]) > 1000
                    then slice_last 1000 (requestHistory s @ [entry])
                    else requestHistory s @ [entry])\<rparr>)"
    and "code (fst (dataPlane uc clk sid m p mgr)) = (case r of None \<Rightarrow> 404 | Some response \<Rightarrow> status response)"
proof -
  have k: "toUpperCase uc m @ '':'' @ p = makeKey uc m p" by (simp add: makeKey_def)
  show "Map_get (sessions (snd (dataPlane uc clk sid m p mgr))) sid =
     Some (s\<lparr>endpoints := snd (getNextResponse uc m p (endpoints s)),
            requestHistory :=
              (if r = None then requestHistory s @ [entry]
               else if length (requestHistory s @ [entry]) > 1000
                    then slice_last 1000 (requestHistory s @ [entry])
                    else requestHistory s @ [entry])\<rparr>)"
    unfolding dataPlane_def Let_def split_beta handler_entry k r_def entry_def
    unfolding s_def[symmetric]
    by (cases "Map_get (endpoints s) (makeKey uc m p)")
       (auto simp: store_updateActivity getNextResponse_def get_def Let_def)
  show "code (fst (dataPlane uc clk sid m p mgr)) = (case r of None \<Rightarrow> 404 | Some response \<Rightarrow> status response)"
    unfolding dataPlane_def Let_def split_beta handler_entry k r_def
    unfolding s_def[symmetric]
    by (cases "Map_get (endpoints s) (makeKey uc m p)")
       (auto simp: getNextResponse_def get_def Let_def)
qed


text \<open>The configuration route stores what \<^verbatim>\<open>configure\<close> stores.\<close>

lemma postEndpoints_session:
  "Map_get (sessions (snd (postEndpoints uc clk sid m p rs mgr))) sid =
     Some ((fst (getOrCreate (t_created clk) (t_activity clk) sid mgr))
       \<lparr>lastActivityAt := t_update clk,
        endpoints := configure uc \<lparr>method_name = m, path = p, responses = rs, callCount = c\<rparr>
          (endpoints (fst (getOrCreate (t_created clk) (t_activity clk) sid mgr)))\<rparr>)"
  unfolding postEndpoints_def Let_def split_beta handler_entry
  by (simp add: store_updateActivity configure_def makeKey_def)

text \<open>After a request that a configured endpoint served, the history holds at most 1000
  records, whatever its length was before.\<close>

lemma dataPlane_configured_bounded:
  assumes "fst (getNextResponse uc m p (endpoints
      ((fst (getOrCreate (t_created clk) (t_activity clk) sid mgr))\<lparr>lastActivityAt := t_update clk\<rparr>))) \<noteq> None"
  shows "\<exists>s. Map_get (sessions (snd (dataPlane uc clk sid m p mgr))) sid = Some s
           \<and> length (requestHistory s) \<le> 1000"
  unfolding dataPlane_session(1) using assms by (simp add: slice_last_def)

lemma dataPlane_not_found_first:
  assumes "Map_get (sessions mgr) sid = None"
  shows "\<exists>s. Map_get (sessions (snd (dataPlane uc clk sid m p mgr))) sid = Some s
            \<and> endpoints s = [] \<and> length (requestHistory s) = 1"
  unfolding dataPlane_session(1)
  using assms by (simp add: getOrCreate_def getNextResponse_def get_def Let_def)

lemma dataPlane_not_found_step:
  assumes "Map_get (sessions mgr) sid = Some s" and "endpoints s = []"
    and "length (requestHistory s) = h"
  shows "\<exists>s'. Map_get (sessions (snd (dataPlane uc clk sid m p mgr))) sid = Some s'
            \<and> endpoints s' = [] \<and> length (requestHistory s') = Suc h"
  unfolding dataPlane_session(1)
  using assms by (simp add: getOrCreate_def getNextResponse_def get_def Let_def)

lemma dataPlaneTimes_not_found:
  assumes "Map_get (sessions mgr) sid = Some s" and "endpoints s = []"
    and "length (requestHistory s) = h"
  shows "\<exists>s'. Map_get (sessions (dataPlaneTimes uc n clk sid m p mgr)) sid = Some s'
            \<and> endpoints s' = [] \<and> length (requestHistory s') = h + n"
proof (induction n)
  case 0
  then show ?case using assms by (simp add: dataPlaneTimes_def)
next
  case (Suc n)
  then obtain s' where s': "Map_get (sessions (dataPlaneTimes uc n clk sid m p mgr)) sid = Some s'"
      "endpoints s' = []" "length (requestHistory s') = h + n"
    by blast
  have "dataPlaneTimes uc (Suc n) clk sid m p mgr =
      snd (dataPlane uc clk sid m p (dataPlaneTimes uc n clk sid m p mgr))"
    by (simp add: dataPlaneTimes_def)
  then show ?case using dataPlane_not_found_step[OF s'] by simp
qed

lemma dataPlaneTimes_fresh:
  assumes "Map_get (sessions mgr) sid = None"
  shows "\<exists>s. Map_get (sessions (dataPlaneTimes uc (Suc n) clk sid m p mgr)) sid = Some s
            \<and> length (requestHistory s) = Suc n"
proof -
  obtain s1 where s1: "Map_get (sessions (snd (dataPlane uc clk sid m p mgr))) sid = Some s1"
      "endpoints s1 = []" "length (requestHistory s1) = 1"
    using dataPlane_not_found_first[OF assms] by blast
  have "dataPlaneTimes uc (Suc n) clk sid m p mgr =
      dataPlaneTimes uc n clk sid m p (snd (dataPlane uc clk sid m p mgr))"
    unfolding dataPlaneTimes_def by (simp only: funpow_Suc_right o_apply)
  then show ?thesis using dataPlaneTimes_not_found[OF s1, of uc n clk m p] by auto
qed

text \<open>
  Claim C2. The record is appended on both branches of the data-plane handler, but the
  trim to 1000 records is reached only on the configured branch: the not-found branch
  returns before it. Starting from a new session manager, 1001 requests
  \<^verbatim>\<open>GET /session/s1/api/missing\<close> with no endpoint configured leave 1001 records in the
  history of session \<^verbatim>\<open>s1\<close>.
\<close>

theorem dataPlane_history_unbounded:
  "map_option (\<lambda>s. length (requestHistory s))
     (Map_get (sessions (dataPlaneTimes no_table 1001
        \<lparr>t_start = 0, t_created = 0, t_activity = 0, t_update = 0, t_end = 0, t_stamp = 0\<rparr>
        ''s1'' ''GET'' ''/api/missing''
        (newSessionManager \<lparr>ttl = 3600000\<rparr> :: unit session_manager))) ''s1'')
   = Some 1001"
proof -
  have e: "Map_get (sessions (newSessionManager \<lparr>ttl = 3600000\<rparr> :: unit session_manager)) ''s1'' = None"
    by (simp add: newSessionManager_def)
  have n: "(1001 :: nat) = Suc 1000" by simp
  show ?thesis
    unfolding n using dataPlaneTimes_fresh[OF e, of no_table 1000] by auto
qed

subsection \<open>The session of an id across operations\<close>

lemma update_absent: "Map_get al k = None \<Longrightarrow> Map_set k v al = al @ [(k, v)]"
  by (induction al) (auto split: if_splits)

lemma getOrCreate_lookup:
  "Map_get (sessions (snd (getOrCreate tc ta sid mgr))) k =
     (if k = sid then Some (fst (getOrCreate tc ta sid mgr)) else Map_get (sessions mgr) k)"
  by (simp add: getOrCreate_def Let_def update_conv' split: option.splits)

lemma getOrCreate_present:
  "Map_get (sessions mgr) sid = Some s \<Longrightarrow> getOrCreate tc ta sid mgr = (s, mgr)"
  by (simp add: getOrCreate_def)

lemma updateActivity_lookup:
  "Map_get (sessions (updateActivity t sid mgr)) k =
     (if k = sid then map_option (\<lambda>s. s\<lparr>lastActivityAt := t\<rparr>) (Map_get (sessions mgr) sid)
      else Map_get (sessions mgr) k)"
  by (simp add: updateActivity_def update_conv' split: option.splits)

lemma dataPlane_other:
  "k \<noteq> sid \<Longrightarrow>
   Map_get (sessions (snd (dataPlane uc clk sid m p mgr))) k = Map_get (sessions mgr) k"
  unfolding dataPlane_def Let_def split_beta
  by (simp add: store_updateActivity getOrCreate_lookup)

lemma postEndpoints_other:
  "k \<noteq> sid \<Longrightarrow>
   Map_get (sessions (snd (postEndpoints uc clk sid m p rs mgr))) k = Map_get (sessions mgr) k"
  unfolding postEndpoints_def Let_def split_beta
  by (simp add: store_updateActivity getOrCreate_lookup)

lemma store_step_keeps:
  assumes "Map_get (sessions mgr) sid = Some s"
  shows "\<exists>s'. Map_get (sessions (store_step uc mgr op)) sid = Some s'
           \<and> id_session s' = id_session s \<and> createdAt s' = createdAt s
           \<and> websocket s' = websocket s"
proof (cases op)
  case (GetOrCreate tc ta k)
  then show ?thesis using assms
    by (cases "k = sid") (simp_all add: getOrCreate_lookup getOrCreate_present)
next
  case (UpdateActivity t k)
  then show ?thesis using assms
    by (cases "k = sid") (simp_all add: updateActivity_lookup)
next
  case (DataPlane clk k m p)
  show ?thesis
  proof (cases "k = sid")
    case True
    then show ?thesis
      using assms DataPlane by (simp add: dataPlane_session(1) getOrCreate_present)
  next
    case False
    then show ?thesis using assms DataPlane by (simp add: dataPlane_other)
  qed
next
  case (PostEndpoints clk k m p rs)
  show ?thesis
  proof (cases "k = sid")
    case True
    then show ?thesis
      using assms PostEndpoints
      by (simp add: postEndpoints_session[where c=0] getOrCreate_present)
  next
    case False
    then show ?thesis using assms PostEndpoints by (simp add: postEndpoints_other)
  qed
qed

lemma store_run_keeps:
  assumes "Map_get (sessions mgr) sid = Some s"
  shows "\<exists>s'. Map_get (sessions (store_run uc mgr ops)) sid = Some s'
           \<and> id_session s' = id_session s \<and> createdAt s' = createdAt s
           \<and> websocket s' = websocket s"
  using assms
proof (induction ops arbitrary: mgr s)
  case Nil
  then show ?case by (simp add: store_run_def)
next
  case (Cons op ops)
  obtain s1 where s1: "Map_get (sessions (store_step uc mgr op)) sid = Some s1"
      "id_session s1 = id_session s" "createdAt s1 = createdAt s" "websocket s1 = websocket s"
    using store_step_keeps[OF Cons.prems] by blast
  have "store_run uc mgr (op # ops) = store_run uc (store_step uc mgr op) ops"
    by (simp add: store_run_def)
  then show ?case using Cons.IH[OF s1(1)] s1(2,3,4) by auto
qed

text \<open>
  Claim C7. \<^verbatim>\<open>getOrCreate\<close> is idempotent. The session that a call returns is the one
  stored under the id after the call. A second call with the same id returns that session
  and leaves the store as the first call left it. When the id is present the call returns
  the stored session, with its endpoints, history, socket and time stamps, and does not
  change the store; when it is absent the call appends a new session (empty endpoints, no
  socket, empty history, the two clock readings as time stamps). After any sequence of
  operations that delete nothing (further \<^verbatim>\<open>getOrCreate\<close> and \<^verbatim>\<open>updateActivity\<close> calls,
  data-plane requests, endpoint configurations, for this or any other id), the id is still
  present with the id, creation time and socket of the session of the first call, and a
  later call returns exactly the stored session and does not change the store.
\<close>

theorem getOrCreate_idempotent:
  "Map_get (sessions (snd (getOrCreate t1 t2 sid mgr))) sid = Some (fst (getOrCreate t1 t2 sid mgr))
   \<and> getOrCreate t3 t4 sid (snd (getOrCreate t1 t2 sid mgr)) =
       (fst (getOrCreate t1 t2 sid mgr), snd (getOrCreate t1 t2 sid mgr))
   \<and> (\<forall>s. Map_get (sessions mgr) sid = Some s \<longrightarrow> getOrCreate t1 t2 sid mgr = (s, mgr))
   \<and> (Map_get (sessions mgr) sid = None \<longrightarrow>
        getOrCreate t1 t2 sid mgr =
          (\<lparr>id_session = sid, createdAt = t1, lastActivityAt = t2, endpoints = [],
             websocket = None, requestHistory = []\<rparr>,
           mgr\<lparr>sessions := sessions mgr @
             [(sid, \<lparr>id_session = sid, createdAt = t1, lastActivityAt = t2, endpoints = [],
                     websocket = None, requestHistory = []\<rparr>)]\<rparr>))
   \<and> (\<exists>s. Map_get (sessions (store_run uc (snd (getOrCreate t1 t2 sid mgr)) ops)) sid = Some s
        \<and> id_session s = id_session (fst (getOrCreate t1 t2 sid mgr))
        \<and> createdAt s = createdAt (fst (getOrCreate t1 t2 sid mgr))
        \<and> websocket s = websocket (fst (getOrCreate t1 t2 sid mgr))
        \<and> getOrCreate t3 t4 sid (store_run uc (snd (getOrCreate t1 t2 sid mgr)) ops) =
            (s, store_run uc (snd (getOrCreate t1 t2 sid mgr)) ops))"
proof -
  let ?s1 = "fst (getOrCreate t1 t2 sid mgr)"
  let ?mgr1 = "snd (getOrCreate t1 t2 sid mgr)"
  have stored: "Map_get (sessions ?mgr1) sid = Some ?s1"
    by (simp add: getOrCreate_lookup)
  have again: "getOrCreate t3 t4 sid ?mgr1 = (?s1, ?mgr1)"
    using stored by (rule getOrCreate_present)
  have present: "\<forall>s. Map_get (sessions mgr) sid = Some s \<longrightarrow> getOrCreate t1 t2 sid mgr = (s, mgr)"
    by (simp add: getOrCreate_present)
  have created: "Map_get (sessions mgr) sid = None \<longrightarrow>
        getOrCreate t1 t2 sid mgr =
          (\<lparr>id_session = sid, createdAt = t1, lastActivityAt = t2, endpoints = [],
             websocket = None, requestHistory = []\<rparr>,
           mgr\<lparr>sessions := sessions mgr @
             [(sid, \<lparr>id_session = sid, createdAt = t1, lastActivityAt = t2, endpoints = [],
                     websocket = None, requestHistory = []\<rparr>)]\<rparr>)"
    by (simp add: getOrCreate_def Let_def update_absent)
  obtain s where s: "Map_get (sessions (store_run uc ?mgr1 ops)) sid = Some s"
      "id_session s = id_session ?s1" "createdAt s = createdAt ?s1" "websocket s = websocket ?s1"
    using store_run_keeps[OF stored] by blast
  have later: "getOrCreate t3 t4 sid (store_run uc ?mgr1 ops) = (s, store_run uc ?mgr1 ops)"
    using s(1) by (rule getOrCreate_present)
  show ?thesis using stored again present created s later by blast
qed

theorem getOrCreate_idempotent_witness:
  "Map_get (sessions (newSessionManager \<lparr>ttl = 100\<rparr> :: unit session_manager)) ''s1'' = None
   \<and> getOrCreate 11 12 ''s1'' (newSessionManager \<lparr>ttl = 100\<rparr> :: unit session_manager) =
       (\<lparr>id_session = ''s1'', createdAt = 11, lastActivityAt = 12, endpoints = [],
          websocket = None, requestHistory = []\<rparr>,
        \<lparr>sessions = [(''s1'', \<lparr>id_session = ''s1'', createdAt = 11, lastActivityAt = 12,
                              endpoints = [], websocket = None, requestHistory = []\<rparr>)],
          config = \<lparr>ttl = 100\<rparr>\<rparr>)
   \<and> getOrCreate 98 99 ''s1''
        (store_run no_table
          (snd (getOrCreate 11 12 ''s1'' (newSessionManager \<lparr>ttl = 100\<rparr> :: unit session_manager)))
          [UpdateActivity 20 ''s1'',
           DataPlane \<lparr>t_start = 30, t_created = 31, t_activity = 32, t_update = 33, t_end = 34,
                       t_stamp = 35\<rparr> ''s1'' ''GET'' ''/a'',
           GetOrCreate 40 41 ''s2''])
     = (\<lparr>id_session = ''s1'', createdAt = 11, lastActivityAt = 33, endpoints = [],
          websocket = None,
          requestHistory = [\<lparr>req_method = ''GET'', req_path = ''/a'', req_status = 404,
             timestamp = 35, configured = False, responseTime = 4\<rparr>]\<rparr>,
        store_run no_table
          (snd (getOrCreate 11 12 ''s1'' (newSessionManager \<lparr>ttl = 100\<rparr> :: unit session_manager)))
          [UpdateActivity 20 ''s1'',
           DataPlane \<lparr>t_start = 30, t_created = 31, t_activity = 32, t_update = 33, t_end = 34,
                       t_stamp = 35\<rparr> ''s1'' ''GET'' ''/a'',
           GetOrCreate 40 41 ''s2''])"
proof -
  let ?mgr0 = "newSessionManager \<lparr>ttl = 100\<rparr> :: unit session_manager"
  let ?ops = "[UpdateActivity 20 ''s1'',
           DataPlane \<lparr>t_start = 30, t_created = 31, t_activity = 32, t_update = 33, t_end = 34,
                       t_stamp = 35\<rparr> ''s1'' ''GET'' ''/a'',
           GetOrCreate 40 41 ''s2''] :: unit store_op list"
  let ?run = "store_run no_table (snd (getOrCreate 11 12 ''s1'' ?mgr0)) ?ops"
  let ?final = "\<lparr>id_session = ''s1'', createdAt = 11, lastActivityAt = 33, endpoints = [],
          websocket = None,
          requestHistory = [\<lparr>req_method = ''GET'', req_path = ''/a'', req_status = 404,
             timestamp = 35, configured = False, responseTime = 4\<rparr>]\<rparr> :: unit session"
  note th = getOrCreate_idempotent[where ?t1.0 = 11 and ?t2.0 = 12 and sid = "''s1''" and mgr = ?mgr0
      and ?t3.0 = 98 and ?t4.0 = 99 and uc = no_table and ops = ?ops]
  have absent: "Map_get (sessions ?mgr0) ''s1'' = None"
    by (simp add: newSessionManager_def)
  have first: "getOrCreate 11 12 ''s1'' ?mgr0 =
       (\<lparr>id_session = ''s1'', createdAt = 11, lastActivityAt = 12, endpoints = [],
          websocket = None, requestHistory = []\<rparr>,
        ?mgr0\<lparr>sessions := sessions ?mgr0 @
          [(''s1'', \<lparr>id_session = ''s1'', createdAt = 11, lastActivityAt = 12,
                     endpoints = [], websocket = None, requestHistory = []\<rparr>)]\<rparr>)"
    using th absent by blast
  obtain s where s: "Map_get (sessions ?run) ''s1'' = Some s"
      "getOrCreate 98 99 ''s1'' ?run = (s, ?run)"
    using th by blast
  have "Map_get (sessions ?run) ''s1'' = Some ?final"
    unfolding first
    by (simp add: store_run_def newSessionManager_def dataPlane_def getOrCreate_def
        updateActivity_def current_def store_def Let_def)
  then have "s = ?final" using s(1) by simp
  then have second: "getOrCreate 98 99 ''s1'' ?run = (?final, ?run)" using s(2) by simp
  show ?thesis
    using absent first second by (simp add: newSessionManager_def)
qed

end
